theory Spec2Isabelle
  imports Main
begin

section \<open>JavaScript values used by the handlers\<close>

text \<open>
  Header values and optional fields are \<open>string option\<close>: \<open>None\<close> is \<open>undefined\<close>.
  JavaScript's \<open>a || d\<close> on such a value yields \<open>d\<close> when \<open>a\<close> is \<open>undefined\<close> or
  the empty string, and \<open>!a\<close> is true in exactly those two cases (the handlers
  test a header with \<open>!a\<close> before they use it).
\<close>

fun js_or :: "string option \<Rightarrow> string \<Rightarrow> string" where
  "js_or None d = d"
| "js_or (Some s) d = (if s = [] then d else s)"

definition endsWith :: "string \<Rightarrow> string \<Rightarrow> bool" where
  "endsWith s suf \<longleftrightarrow> length suf \<le> length s \<and> drop (length s - length suf) s = suf"

text \<open>
  A JavaScript \<open>Map\<close> keeps its entries in insertion order and holds each key once.
  It is an association list: \<open>get\<close> finds the entry of a key, \<open>set\<close> replaces the
  value of a key that is present (the entry keeps its place) and appends a new entry
  otherwise, \<open>delete\<close> drops the entry, \<open>size\<close> counts the entries.
\<close>

definition Map_get :: "'k \<Rightarrow> ('k \<times> 'v) list \<Rightarrow> 'v option" where
  "Map_get k m = map_of m k"

fun Map_set :: "'k \<Rightarrow> 'v \<Rightarrow> ('k \<times> 'v) list \<Rightarrow> ('k \<times> 'v) list" where
  "Map_set k v [] = [(k, v)]"
| "Map_set k v ((k', v') # m) =
     (if k' = k then (k, v) # m else (k', v') # Map_set k v m)"

definition Map_delete :: "'k \<Rightarrow> ('k \<times> 'v) list \<Rightarrow> ('k \<times> 'v) list" where
  "Map_delete k m = filter (\<lambda>e. fst e \<noteq> k) m"

definition Map_size :: "('k \<times> 'v) list \<Rightarrow> nat" where
  "Map_size m = length m"

section \<open>The session store (api/session-store.js)\<close>

record session =
  fingerprint :: string
  createdAt :: int
  expiresAt :: int
  lastHeartbeat :: int
  claimed :: bool

type_synonym sessions = "(string \<times> session) list"

definition SESSION_TIMEOUT :: int where
  "SESSION_TIMEOUT = 5 * 60 * 1000"

definition MAX_SESSIONS :: nat where
  "MAX_SESSIONS = 100"

text \<open>
  The fields of the request object that the handlers read: the method
  (\<open>httpMethod\<close>), the URL, the headers \<open>x-forwarded-for\<close>, \<open>user-agent\<close> and
  \<open>x-session-key\<close>, the socket's remote address, and the fields \<open>image\<close>,
  \<open>prompt\<close> and \<open>model\<close> of the body, which is a parsed JSON object whose fields,
  when present, are strings.
\<close>

record request =
  httpMethod :: string
  url :: "string option"
  xForwardedFor :: "string option"
  remoteAddress :: "string option"
  userAgent :: "string option"
  xSessionKey :: "string option"
  bodyImage :: "string option"
  bodyPrompt :: "string option"
  bodyModel :: "string option"

text \<open>
  \<open>generateFingerprint\<close> hashes \<open>ip + userAgent\<close>. The SHA-256 digest in hexadecimal
  comes from Node's \<open>crypto\<close> module; it is the parameter \<open>sha256hex\<close>.
\<close>

definition clientIp :: "request \<Rightarrow> string" where
  "clientIp req = js_or (xForwardedFor req) (js_or (remoteAddress req) [])"

definition generateFingerprint :: "(string \<Rightarrow> string) \<Rightarrow> request \<Rightarrow> string" where
  "generateFingerprint sha256hex req =
     sha256hex (clientIp req @ js_or (userAgent req) [])"

text \<open>
  The clock is read with \<open>Date.now()\<close>, in epoch milliseconds. \<open>cleanupExpiredSessions\<close>
  reads it once, and so does \<open>validateSession\<close>; that reading is the argument \<open>now\<close>.
\<close>

definition cleanupExpiredSessions :: "int \<Rightarrow> sessions \<Rightarrow> sessions" where
  "cleanupExpiredSessions now m = filter (\<lambda>e. \<not> now > expiresAt (snd e)) m"

datatype validation = Valid | Invalid string

definition validateSession ::
  "(string \<Rightarrow> string) \<Rightarrow> int \<Rightarrow> string \<Rightarrow> request \<Rightarrow> sessions \<Rightarrow> validation \<times> sessions" where
  "validateSession sha256hex now sessionKey req m =
     (case Map_get sessionKey m of
        None \<Rightarrow> (Invalid ''Session not found or expired'', m)
      | Some s \<Rightarrow>
          if now > expiresAt s then (Invalid ''Session expired'', Map_delete sessionKey m)
          else if fingerprint s \<noteq> generateFingerprint sha256hex req
            then (Invalid ''Session fingerprint mismatch'', m)
          else (Valid, m))"

section \<open>The session endpoints (api/session.js)\<close>

text \<open>
  The JSON values that \<open>JSON.parse\<close> returns. An object is the list of its properties
  in insertion order, read with \<open>Map_get\<close> and written with \<open>Map_set\<close>.
\<close>

datatype json =
    JNull
  | JBool bool
  | JNum int
  | JStr string
  | JArr "json list"
  | JObj "(string \<times> json) list"

text \<open>
  The bodies that the handlers send: one constructor for each shape of JSON object (or
  text) passed to \<open>res.json\<close> and \<open>res.end\<close>. Timestamps stay in epoch milliseconds.
\<close>

datatype body =
    NoBody
  | Error string
  | ErrorMessage string string
  | ErrorDetails string string
  | SessionReused string int
  | SessionCreated string int
  | HeartbeatOk int
  | Released
  | Analysis string string int
  | Document json
  | ScheduleSaved json
  | Text string

datatype response = Response (status: nat) (payload: body)

text \<open>
  The loop over \<open>sessions.entries()\<close> of the claim branch returns at the first entry, in
  insertion order, whose fingerprint is the request's and whose expiry lies after the
  clock reading.
\<close>

fun findActive :: "string \<Rightarrow> int \<Rightarrow> sessions \<Rightarrow> (string \<times> session) option" where
  "findActive fp now [] = None"
| "findActive fp now ((existingKey, s) # m) =
     (if fingerprint s = fp \<and> now < expiresAt s then Some (existingKey, s)
      else findActive fp now m)"

definition urlPath :: "request \<Rightarrow> string" where
  "urlPath req = (case url req of None \<Rightarrow> [] | Some u \<Rightarrow> takeWhile (\<lambda>c. c \<noteq> CHR ''?'') u)"

text \<open>
  The session handler reads the clock several times while it handles one request: once
  in the sweep, once for each entry of the request's fingerprint that the reuse loop
  tests, three times when it creates a session, twice when it extends one. The
  definitions come in two forms. \<open>claim\<close>, \<open>heartbeat\<close> and \<open>handler\<close> are the handler
  when every reading taken for the request is the same \<open>now\<close> (the request is handled
  within one millisecond). \<open>claimAt\<close>, \<open>heartbeatAt\<close> and \<open>handlerAt\<close>, further down,
  give each call of \<open>Date.now()\<close> its own reading.

  \<open>handler\<close> takes the digest function, the key that \<open>generateSessionKey\<close> draws for
  this request (32 random bytes in hexadecimal), the clock reading, the request and the
  store, and returns the response with the store it leaves.
\<close>

definition claim ::
  "(string \<Rightarrow> string) \<Rightarrow> string \<Rightarrow> int \<Rightarrow> request \<Rightarrow> sessions \<Rightarrow> response \<times> sessions" where
  "claim sha256hex sessionKey now req m =
     (if Map_size m \<ge> MAX_SESSIONS
        then (Response 429
                (ErrorMessage ''Session limit reached''
                   ''Too many active sessions. Try again later.''), m)
      else
        let fp = generateFingerprint sha256hex req in
        (case findActive fp now m of
           Some (existingKey, s) \<Rightarrow> (Response 200 (SessionReused existingKey (expiresAt s)), m)
         | None \<Rightarrow>
             let expires = now + SESSION_TIMEOUT in
             (Response 200 (SessionCreated sessionKey expires),
              Map_set sessionKey
                \<lparr>fingerprint = fp, createdAt = now, expiresAt = expires,
                 lastHeartbeat = now, claimed = True\<rparr> m)))"

definition heartbeat ::
  "(string \<Rightarrow> string) \<Rightarrow> int \<Rightarrow> request \<Rightarrow> sessions \<Rightarrow> response \<times> sessions" where
  "heartbeat sha256hex now req m =
     (case xSessionKey req of
        None \<Rightarrow> (Response 400 (Error ''Missing X-Session-Key header''), m)
      | Some sessionKey \<Rightarrow>
          if sessionKey = [] then (Response 400 (Error ''Missing X-Session-Key header''), m)
          else
            (case Map_get sessionKey m of
               None \<Rightarrow> (Response 404 (Error ''Session not found or expired''), m)
             | Some s \<Rightarrow>
                 if fingerprint s \<noteq> generateFingerprint sha256hex req
                   then (Response 403 (Error ''Session fingerprint mismatch''), m)
                 else
                   let s' = s\<lparr>lastHeartbeat := now, expiresAt := now + SESSION_TIMEOUT\<rparr> in
                   (Response 200 (HeartbeatOk (expiresAt s')), Map_set sessionKey s' m)))"

definition release ::
  "(string \<Rightarrow> string) \<Rightarrow> request \<Rightarrow> sessions \<Rightarrow> response \<times> sessions" where
  "release sha256hex req m =
     (case xSessionKey req of
        None \<Rightarrow> (Response 400 (Error ''Missing X-Session-Key header''), m)
      | Some sessionKey \<Rightarrow>
          if sessionKey = [] then (Response 400 (Error ''Missing X-Session-Key header''), m)
          else
            (case Map_get sessionKey m of
               Some s \<Rightarrow>
                 if fingerprint s = generateFingerprint sha256hex req
                   then (Response 200 Released, Map_delete sessionKey m)
                 else (Response 403 (Error ''Cannot release session from different machine''), m)
             | None \<Rightarrow> (Response 404 (Error ''Session not found''), m)))"

definition handler ::
  "(string \<Rightarrow> string) \<Rightarrow> string \<Rightarrow> int \<Rightarrow> request \<Rightarrow> sessions \<Rightarrow> response \<times> sessions" where
  "handler sha256hex sessionKey now req m =
     (if httpMethod req = ''OPTIONS'' then (Response 200 NoBody, m)
      else
        let path = urlPath req;
            m1 = cleanupExpiredSessions now m
        in
        if endsWith path ''/claim'' \<and> httpMethod req = ''GET''
          then claim sha256hex sessionKey now req m1
        else if endsWith path ''/heartbeat'' \<and> httpMethod req = ''POST''
          then heartbeat sha256hex now req m1
        else if endsWith path ''/release'' \<and> httpMethod req = ''POST''
          then release sha256hex req m1
        else (Response 404 (Error ''Not found''), m1))"

text \<open>
  With a reading for each call: \<open>clk n\<close> is the value of the \<open>n\<close>-th call of
  \<open>Date.now()\<close> since the process started, and a function that reads the clock takes
  the number \<open>i\<close> of calls made so far and returns the number after it. In the reuse
  loop the clock is read only for an entry whose fingerprint is the request's (the
  \<open>&&\<close> short-circuits). On creation \<open>expiresAt\<close> is computed first, then the object
  literal reads the clock for \<open>createdAt\<close> and for \<open>lastHeartbeat\<close>.
\<close>

fun findActiveAt ::
  "string \<Rightarrow> (nat \<Rightarrow> int) \<Rightarrow> nat \<Rightarrow> sessions \<Rightarrow> (string \<times> session) option \<times> nat" where
  "findActiveAt fp clk i [] = (None, i)"
| "findActiveAt fp clk i ((existingKey, s) # m) =
     (if fingerprint s = fp
        then (if clk i < expiresAt s then (Some (existingKey, s), Suc i)
              else findActiveAt fp clk (Suc i) m)
      else findActiveAt fp clk i m)"

definition claimAt ::
  "(string \<Rightarrow> string) \<Rightarrow> string \<Rightarrow> (nat \<Rightarrow> int) \<Rightarrow> nat \<Rightarrow> request \<Rightarrow> sessions \<Rightarrow>
   response \<times> sessions \<times> nat" where
  "claimAt sha256hex sessionKey clk i req m =
     (if Map_size m \<ge> MAX_SESSIONS
        then (Response 429
                (ErrorMessage ''Session limit reached''
                   ''Too many active sessions. Try again later.''), m, i)
      else
        let fp = generateFingerprint sha256hex req in
        (case findActiveAt fp clk i m of
           (Some (existingKey, s), j) \<Rightarrow>
             (Response 200 (SessionReused existingKey (expiresAt s)), m, j)
         | (None, j) \<Rightarrow>
             let expires = clk j + SESSION_TIMEOUT in
             (Response 200 (SessionCreated sessionKey expires),
              Map_set sessionKey
                \<lparr>fingerprint = fp, createdAt = clk (j + 1), expiresAt = expires,
                 lastHeartbeat = clk (j + 2), claimed = True\<rparr> m,
              j + 3)))"

definition heartbeatAt ::
  "(string \<Rightarrow> string) \<Rightarrow> (nat \<Rightarrow> int) \<Rightarrow> nat \<Rightarrow> request \<Rightarrow> sessions \<Rightarrow>
   response \<times> sessions \<times> nat" where
  "heartbeatAt sha256hex clk i req m =
     (case xSessionKey req of
        None \<Rightarrow> (Response 400 (Error ''Missing X-Session-Key header''), m, i)
      | Some sessionKey \<Rightarrow>
          if sessionKey = [] then (Response 400 (Error ''Missing X-Session-Key header''), m, i)
          else
            (case Map_get sessionKey m of
               None \<Rightarrow> (Response 404 (Error ''Session not found or expired''), m, i)
             | Some s \<Rightarrow>
                 if fingerprint s \<noteq> generateFingerprint sha256hex req
                   then (Response 403 (Error ''Session fingerprint mismatch''), m, i)
                 else
                   let s' = s\<lparr>lastHeartbeat := clk i,
                              expiresAt := clk (i + 1) + SESSION_TIMEOUT\<rparr> in
                   (Response 200 (HeartbeatOk (expiresAt s')), Map_set sessionKey s' m, i + 2)))"

definition handlerAt ::
  "(string \<Rightarrow> string) \<Rightarrow> string \<Rightarrow> (nat \<Rightarrow> int) \<Rightarrow> nat \<Rightarrow> request \<Rightarrow> sessions \<Rightarrow>
   response \<times> sessions \<times> nat" where
  "handlerAt sha256hex sessionKey clk i req m =
     (if httpMethod req = ''OPTIONS'' then (Response 200 NoBody, m, i)
      else
        let path = urlPath req;
            m1 = cleanupExpiredSessions (clk i) m
        in
        if endsWith path ''/claim'' \<and> httpMethod req = ''GET''
          then claimAt sha256hex sessionKey clk (Suc i) req m1
        else if endsWith path ''/heartbeat'' \<and> httpMethod req = ''POST''
          then heartbeatAt sha256hex clk (Suc i) req m1
        else if endsWith path ''/release'' \<and> httpMethod req = ''POST''
          then (let (r, m2) = release sha256hex req m1 in (r, m2, Suc i))
        else (Response 404 (Error ''Not found''), m1, Suc i))"

section \<open>The vision endpoint (POST /api/neuro-os/vision)\<close>

definition validateSessionKey ::
  "(string \<Rightarrow> string) \<Rightarrow> int \<Rightarrow> request \<Rightarrow> sessions \<Rightarrow> validation \<times> sessions" where
  "validateSessionKey sha256hex now req m =
     (case xSessionKey req of
        None \<Rightarrow> (Invalid ''Missing session key'', m)
      | Some sessionKey \<Rightarrow>
          if sessionKey = [] then (Invalid ''Missing session key'', m)
          else validateSession sha256hex now sessionKey req m)"

record userLimits =
  count :: nat
  resetAt :: int

type_synonym rateLimitMap = "string \<Rightarrow> userLimits option"

definition RATE_LIMIT :: nat where
  "RATE_LIMIT = 10"

definition RATE_WINDOW :: int where
  "RATE_WINDOW = 60 * 1000"

text \<open>
  \<open>checkRateLimit\<close> works on the object stored in the map when there is one, so the
  reset of an elapsed window is a write to the map; a fresh object enters the map only
  with \<open>rateLimitMap.set\<close>.
\<close>

definition checkRateLimit :: "int \<Rightarrow> string \<Rightarrow> rateLimitMap \<Rightarrow> bool \<times> rateLimitMap" where
  "checkRateLimit now identifier rateLimitMap =
     (let stored = rateLimitMap identifier;
          fetched = (case stored of
                       Some u \<Rightarrow> u
                     | None \<Rightarrow> \<lparr>count = 0, resetAt = now + RATE_WINDOW\<rparr>);
          limits = (if now > resetAt fetched
                      then fetched\<lparr>count := 0, resetAt := now + RATE_WINDOW\<rparr>
                    else fetched);
          m1 = (case stored of
                  Some u \<Rightarrow> rateLimitMap(identifier \<mapsto> limits)
                | None \<Rightarrow> rateLimitMap)
      in if count limits \<ge> RATE_LIMIT then (False, m1)
         else (True, m1(identifier \<mapsto> limits\<lparr>count := count limits + 1\<rparr>)))"

text \<open>
  The Groq client is the parameter \<open>groq\<close>: it takes the model name, the prompt and the
  image URL and either completes, with the content of the first choice (if any) and the
  model that answered, or throws an error with a status and a message.
\<close>

datatype completion =
    Completed "string option" string
  | Thrown "nat option" string

text \<open>
  The calls that the vision handler makes to its collaborators, in the order it makes
  them.
\<close>

datatype call =
    CallValidateSession
  | CallCheckRateLimit string
  | CallGroq string string string

fun isRateLimitCall :: "call \<Rightarrow> bool" where
  "isRateLimitCall (CallCheckRateLimit identifier) = True"
| "isRateLimitCall c = False"

fun isGroqCall :: "call \<Rightarrow> bool" where
  "isGroqCall (CallGroq modelName analysisPrompt imageUrl) = True"
| "isGroqCall c = False"

definition visionClientId :: "request \<Rightarrow> string" where
  "visionClientId req = js_or (xForwardedFor req) (js_or (remoteAddress req) ''unknown'')"

definition defaultPrompt :: string where
  "defaultPrompt =
     ''Analyze this screenshot and describe:'' @ [CHR 0x0A] @
     ''1. What application or website is shown'' @ [CHR 0x0A] @
     ''2. All visible UI elements (buttons, text, links, inputs) with their approximate positions'' @ [CHR 0x0A] @
     ''3. Main content and purpose'' @ [CHR 0x0A] @
     ''4. Any interactive elements the user could click on'' @ [CHR 0x0A] @
     ''Be specific about locations (top-left, center, bottom-right, etc.)''"

definition startsWith :: "string \<Rightarrow> string \<Rightarrow> bool" where
  "startsWith s pre \<longleftrightarrow> take (length pre) s = pre"

definition vision_handler ::
  "(string \<Rightarrow> string) \<Rightarrow> (string \<Rightarrow> string \<Rightarrow> string \<Rightarrow> completion) \<Rightarrow> int \<Rightarrow> request \<Rightarrow>
   sessions \<times> rateLimitMap \<Rightarrow> response \<times> (sessions \<times> rateLimitMap) \<times> call list" where
  "vision_handler sha256hex groq now req st =
     (if httpMethod req = ''OPTIONS'' then (Response 200 NoBody, st, [])
      else if httpMethod req \<noteq> ''POST'' then (Response 405 (Error ''Method not allowed''), st, [])
      else
        let (sessionValidation, m1) = validateSessionKey sha256hex now req (fst st) in
        (case sessionValidation of
           Invalid reason \<Rightarrow>
             (Response 401 (ErrorMessage ''Unauthorized'' (js_or (Some reason) ''Invalid session key'')),
              (m1, snd st), [CallValidateSession])
         | Valid \<Rightarrow>
             let clientId = visionClientId req;
                 (allowed, rl1) = checkRateLimit now clientId (snd st)
             in
             if \<not> allowed
               then (Response 429 (Error ''Rate limit exceeded - max 10 requests per minute''),
                     (m1, rl1), [CallValidateSession, CallCheckRateLimit clientId])
             else
               (case bodyImage req of
                  None \<Rightarrow>
                    (Response 400 (Error ''Missing required field: image (base64 or URL)''),
                     (m1, rl1), [CallValidateSession, CallCheckRateLimit clientId])
                | Some img \<Rightarrow>
                    if img = []
                      then (Response 400 (Error ''Missing required field: image (base64 or URL)''),
                            (m1, rl1), [CallValidateSession, CallCheckRateLimit clientId])
                    else
                      let analysisPrompt = js_or (bodyPrompt req) defaultPrompt;
                          modelName = js_or (bodyModel req) ''llama-3.2-90b-vision-preview'';
                          imageUrl = (if startsWith img ''data:'' then img
                                      else ''data:image/png;base64,'' @ img);
                          calls = [CallValidateSession, CallCheckRateLimit clientId,
                                   CallGroq modelName analysisPrompt imageUrl]
                      in
                      (case groq modelName analysisPrompt imageUrl of
                         Completed content answered \<Rightarrow>
                           (Response 200
                              (Analysis (js_or content ''No analysis generated'') answered now),
                            (m1, rl1), calls)
                       | Thrown code message \<Rightarrow>
                           if code = Some 401
                             then (Response 500 (Error ''Invalid Groq API key''), (m1, rl1), calls)
                           else (Response 500 (ErrorDetails ''Vision analysis failed'' message),
                                 (m1, rl1), calls)))))"



section \<open>The schedule endpoint (api/ncom/schedule.js)\<close>

text \<open>
  The handlers read and write one file, \<open>data/ncom/videoSchedule.json\<close>. The disk is
  the state of that file (absent; present but \<open>readFileSync\<close> or \<open>JSON.parse\<close> throws;
  present with the value it parses to), whether its directory exists, and whether writes
  succeed. \<open>JSON.stringify\<close> followed by \<open>JSON.parse\<close> returns the value written, so the
  file holds the value. Numbers are integers (indices, delays and timestamps in
  milliseconds). A call of \<open>fs\<close> that fails throws.
\<close>

datatype fileState = Absent | Unreadable | Stored json

record disk =
  dirExists :: bool
  scheduleFile :: fileState
  writable :: bool

datatype exn = IOError

definition writeFileSync :: "json \<Rightarrow> disk \<Rightarrow> exn + disk" where
  "writeFileSync v d =
     (if writable d \<and> dirExists d then Inr (d\<lparr>scheduleFile := Stored v\<rparr>) else Inl IOError)"

record schedule_request =
  reqMethod :: string
  reqBody :: "json option"

subsection \<open>The first version of the file\<close>




subsection \<open>The second version of the file\<close>

text \<open>
  \<open>Math.random\<close> is the record of the integers that the handler derives from it:
  \<open>Math.floor(Math.random() * intervals.length)\<close> at each of the three places that pick
  an interval, and \<open>Math.floor(Math.random() * (i + 1))\<close> at round \<open>i\<close> of the shuffle.
  Each is reduced into its range.
\<close>

record random =
  loadDraw :: nat
  shuffleDraw :: "nat \<Rightarrow> nat"
  rotateDraw :: nat
  postDraw :: nat

definition intervals :: "int list" where
  "intervals = [3600000, 5 * 3600000, 24 * 3600000]"

definition pickRandomInterval :: "nat \<Rightarrow> int" where
  "pickRandomInterval r = intervals ! (r mod length intervals)"

fun shuffle_loop :: "(nat \<Rightarrow> nat) \<Rightarrow> nat \<Rightarrow> 'a list \<Rightarrow> 'a list" where
  "shuffle_loop draw 0 arr = arr"
| "shuffle_loop draw (Suc i) arr =
     (let j = draw (Suc i) mod Suc (Suc i)
      in shuffle_loop draw i (arr[Suc i := arr ! j, j := arr ! Suc i]))"

definition shuffle :: "(nat \<Rightarrow> nat) \<Rightarrow> 'a list \<Rightarrow> 'a list" where
  "shuffle draw arr = shuffle_loop draw (length arr - 1) arr"

definition ensureDir :: "disk \<Rightarrow> exn + disk" where
  "ensureDir d =
     (if \<not> dirExists d
        then (if writable d then Inr (d\<lparr>dirExists := True\<rparr>) else Inl IOError)
      else Inr d)"

text \<open>
  \<open>!v || typeof v !== 'number'\<close> for a property \<open>v\<close> that may be missing.
\<close>

fun notANumber :: "json option \<Rightarrow> bool" where
  "notANumber (Some (JNum n)) = (n = 0)"
| "notANumber _ = True"

definition wrap :: "json \<Rightarrow> int \<Rightarrow> json" where
  "wrap schedule nextRefresh = JObj [(''schedule'', schedule), (''nextRefresh'', JNum nextRefresh)]"

definition loadSchedule :: "nat \<Rightarrow> int \<Rightarrow> disk \<Rightarrow> json option \<times> disk" where
  "loadSchedule r now d =
     (case scheduleFile d of
        Absent \<Rightarrow> (None, d)
      | Unreadable \<Rightarrow> (None, d)
      | Stored parsed \<Rightarrow>
          (case parsed of
             JArr items \<Rightarrow>
               let wrapped = wrap (JArr items) (now + pickRandomInterval r) in
               (case writeFileSync wrapped d of
                  Inr d1 \<Rightarrow> (Some wrapped, d1)
                | Inl err \<Rightarrow> (None, d))
           | JObj props \<Rightarrow>
               (case Map_get ''schedule'' props of
                  Some (JArr items) \<Rightarrow>
                    if notANumber (Map_get ''nextRefresh'' props)
                      then
                        let fixed = JObj (Map_set ''nextRefresh''
                                            (JNum (now + pickRandomInterval r)) props) in
                        (case writeFileSync fixed d of
                           Inr d1 \<Rightarrow> (Some fixed, d1)
                         | Inl err \<Rightarrow> (None, d))
                    else (Some parsed, d)
                | _ \<Rightarrow> (None, d))
           | _ \<Rightarrow> (None, d)))"

definition saveSchedule :: "json \<Rightarrow> int \<Rightarrow> disk \<Rightarrow> exn + disk" where
  "saveSchedule schedule nextRefresh d =
     (case ensureDir d of
        Inl err \<Rightarrow> Inl err
      | Inr d1 \<Rightarrow> writeFileSync (wrap schedule nextRefresh) d1)"

text \<open>
  The object spread \<open>{ ...v }\<close> copies the own properties of \<open>v\<close>: those of an object,
  the indexed elements of an array or a string, none of any other value.
\<close>

fun decimal :: "nat \<Rightarrow> string" where
  "decimal n =
     (if n < 10 then [char_of (48 + n)]
      else decimal (n div 10) @ [char_of (48 + n mod 10)])"

declare decimal.simps [simp del]

definition indexed :: "json list \<Rightarrow> (string \<times> json) list" where
  "indexed xs = zip (map decimal [0..<length xs]) xs"

fun spread :: "json \<Rightarrow> json" where
  "spread (JObj props) = JObj props"
| "spread (JArr items) = JObj (indexed items)"
| "spread (JStr s) = JObj (indexed (map (\<lambda>c. JStr [c]) s))"
| "spread v = JObj []"

fun due :: "int \<Rightarrow> json \<Rightarrow> bool" where
  "due now (JObj props) =
     (case Map_get ''nextRefresh'' props of Some (JNum n) \<Rightarrow> now \<ge> n | _ \<Rightarrow> False)"
| "due now v = False"

fun scheduleOf :: "json \<Rightarrow> json list" where
  "scheduleOf (JObj props) =
     (case Map_get ''schedule'' props of Some (JArr items) \<Rightarrow> items | _ \<Rightarrow> [])"
| "scheduleOf v = []"

definition noScheduleHint :: string where
  "noScheduleHint =
     ''No valid schedule found on disk. Please seed data/ncom/videoSchedule.json ''
     @ ''with an array of items or the object { schedule, nextRefresh }.''"

definition rotate :: "random \<Rightarrow> int \<Rightarrow> json \<Rightarrow> disk \<Rightarrow> exn + json \<times> disk" where
  "rotate rnd now dat d =
     (if due now dat
        then
          let currentSchedule = scheduleOf dat;
              newSchedule = shuffle (shuffleDraw rnd) (map spread currentSchedule);
              nextRefresh = now + pickRandomInterval (rotateDraw rnd)
          in (case saveSchedule (JArr newSchedule) nextRefresh d of
                Inl err \<Rightarrow> Inl err
              | Inr d1 \<Rightarrow> Inr (wrap (JArr newSchedule) nextRefresh, d1))
      else Inr (dat, d))"

definition schedule_handler ::
  "random \<Rightarrow> int \<Rightarrow> schedule_request \<Rightarrow> disk \<Rightarrow> exn + response \<times> disk" where
  "schedule_handler rnd now req d0 =
     (case ensureDir d0 of
        Inl err \<Rightarrow> Inl err
      | Inr d \<Rightarrow>
          (case loadSchedule (loadDraw rnd) now d of
             (None, d1) \<Rightarrow> Inr (Response 500 (Error noScheduleHint), d1)
           | (Some loaded, d1) \<Rightarrow>
               (case rotate rnd now loaded d1 of
                  Inl err \<Rightarrow> Inl err
                | Inr (dat, d2) \<Rightarrow>
                    if reqMethod req = ''GET'' then Inr (Response 200 (Document dat), d2)
                    else if reqMethod req = ''POST'' then
                      (case reqBody req of
                         Some (JArr newSchedule) \<Rightarrow>
                           (case saveSchedule (JArr newSchedule)
                                   (now + pickRandomInterval (postDraw rnd)) d2 of
                              Inl err \<Rightarrow> Inl err
                            | Inr d3 \<Rightarrow> Inr (Response 200 (ScheduleSaved (JArr newSchedule)), d3))
                       | _ \<Rightarrow> Inr (Response 400 (Error ''Schedule must be an array''), d2))
                    else Inr (Response 405
                                (Text (''Method '' @ reqMethod req @ '' Not Allowed'')), d2))))"

section \<open>Sequences of requests\<close>

text \<open>
  Requests are handled one at a time, each to completion. \<open>serve\<close> handles a sequence
  of requests, each with the key drawn for it and its clock reading, and returns the
  responses in order with the final store.
\<close>

fun serve ::
  "(string \<Rightarrow> string) \<Rightarrow> (string \<times> int \<times> request) list \<Rightarrow> sessions \<Rightarrow> response list \<times> sessions" where
  "serve sha256hex [] m = ([], m)"
| "serve sha256hex ((sessionKey, now, req) # rs) m =
     (let (r, m1) = handler sha256hex sessionKey now req m;
          (out, m2) = serve sha256hex rs m1
      in (r # out, m2))"

text \<open>
  \<open>serveAt\<close> does the same with a reading for each call of \<open>Date.now()\<close>: the clock
  goes on from one request to the next.
\<close>

fun serveAt ::
  "(string \<Rightarrow> string) \<Rightarrow> (nat \<Rightarrow> int) \<Rightarrow> nat \<Rightarrow> (string \<times> request) list \<Rightarrow> sessions \<Rightarrow>
   response list \<times> sessions \<times> nat" where
  "serveAt sha256hex clk i [] m = ([], m, i)"
| "serveAt sha256hex clk i ((sessionKey, req) # rs) m =
     (let (r, m1, j) = handlerAt sha256hex sessionKey clk i req m;
          (out, m2, n) = serveAt sha256hex clk j rs m1
      in (r # out, m2, n))"

text \<open>
  The entries of the store that the claim branch takes for an active session of a
  fingerprint: same fingerprint, expiry after the clock reading.
\<close>

definition activeFor :: "string \<Rightarrow> int \<Rightarrow> sessions \<Rightarrow> sessions" where
  "activeFor fp now m = filter (\<lambda>e. fingerprint (snd e) = fp \<and> now < expiresAt (snd e)) m"

definition isClaim :: "request \<Rightarrow> bool" where
  "isClaim req \<longleftrightarrow> httpMethod req = ''GET'' \<and> endsWith (urlPath req) ''/claim''"

text \<open>
  A request that carries the given method, URL, forwarded address, user agent and
  session key, and nothing else.
\<close>

definition plainRequest ::
  "string \<Rightarrow> string \<Rightarrow> string \<Rightarrow> string \<Rightarrow> string option \<Rightarrow> request" where
  "plainRequest meth u ip ua key =
     \<lparr>httpMethod = meth, url = Some u, xForwardedFor = Some ip, remoteAddress = None,
      userAgent = Some ua, xSessionKey = key,
      bodyImage = None, bodyPrompt = None, bodyModel = None\<rparr>"

text \<open>
  A clock that advances by one millisecond from one reading to the next.
\<close>

definition tickingClock :: "int \<Rightarrow> nat \<Rightarrow> int" where
  "tickingClock start n = start + int n"

text \<open>
  A store of \<open>n\<close> sessions with pairwise different keys and fingerprints, all expiring
  at the same time.
\<close>

fun otherSessions :: "nat \<Rightarrow> int \<Rightarrow> sessions" where
  "otherSessions 0 expires = []"
| "otherSessions (Suc n) expires =
     (replicate (Suc n) CHR ''k'',
      \<lparr>fingerprint = replicate (Suc n) CHR ''f'', createdAt = 0, expiresAt = expires,
       lastHeartbeat = 0, claimed = True\<rparr>) # otherSessions n expires"

section \<open>Sweeping and lookup\<close>

lemma Map_get_cleanup_expired:
  "distinct (map fst m) \<Longrightarrow> Map_get k m = Some s \<Longrightarrow> now > expiresAt s \<Longrightarrow>
   Map_get k (cleanupExpiredSessions now m) = None"
  unfolding Map_get_def cleanupExpiredSessions_def
  by (induction m) (auto simp: map_of_eq_None_iff image_iff split: if_splits)

lemma Map_get_cleanup_None:
  "Map_get k m = None \<Longrightarrow> Map_get k (cleanupExpiredSessions now m) = None"
  unfolding Map_get_def cleanupExpiredSessions_def
  by (induction m) (auto split: if_splits)

lemma Map_get_cleanup_live:
  "Map_get k m = Some s \<Longrightarrow> \<not> now > expiresAt s \<Longrightarrow>
   Map_get k (cleanupExpiredSessions now m) = Some s"
  unfolding Map_get_def cleanupExpiredSessions_def
  by (induction m) (auto split: if_splits)

lemma length_cleanup: "length (cleanupExpiredSessions now m) \<le> length m"
  by (simp add: cleanupExpiredSessions_def)

lemma cleanup_all_expired:
  "\<forall>e \<in> set m. now > expiresAt (snd e) \<Longrightarrow> cleanupExpiredSessions now m = []"
  by (simp add: cleanupExpiredSessions_def)

lemma cleanup_none_expired:
  "\<forall>e \<in> set m. \<not> now > expiresAt (snd e) \<Longrightarrow> cleanupExpiredSessions now m = m"
  by (simp add: cleanupExpiredSessions_def)

text \<open>
  Every operation keeps the keys of the store pairwise different, as a \<open>Map\<close> does.
\<close>

lemma map_fst_Map_set: "fst ` set (Map_set k v m) = insert k (fst ` set m)"
proof (induction m)
  case Nil
  then show ?case by simp
next
  case (Cons e m)
  obtain k' v' where e: "e = (k', v')" by (cases e) auto
  show ?case
  proof (cases "k' = k")
    case True
    then show ?thesis using e by simp
  next
    case False
    then show ?thesis using e Cons.IH by (simp add: insert_commute)
  qed
qed

lemma distinct_Map_set: "distinct (map fst m) \<Longrightarrow> distinct (map fst (Map_set k v m))"
proof (induction m)
  case Nil
  then show ?case by simp
next
  case (Cons e m)
  obtain k' v' where e: "e = (k', v')" by (cases e) auto
  show ?case
  proof (cases "k' = k")
    case True
    then show ?thesis using Cons.prems e by simp
  next
    case False
    have "k' \<notin> fst ` set (Map_set k v m)"
      using Cons.prems e False by (simp add: map_fst_Map_set)
    then show ?thesis using Cons e False by simp
  qed
qed

lemma distinct_filter_keys: "distinct (map fst m) \<Longrightarrow> distinct (map fst (filter P m))"
  by (simp add: distinct_map_filter)

lemma handler_keeps_keys_distinct:
  assumes "distinct (map fst m)"
  shows "distinct (map fst (snd (handler sha256hex newKey now req m)))"
proof -
  have c: "distinct (map fst (cleanupExpiredSessions now m))"
    using assms by (simp add: cleanupExpiredSessions_def distinct_filter_keys)
  have 1: "distinct (map fst (snd (claim sha256hex newKey now req m1)))"
    if "distinct (map fst m1)" for m1
    using that by (auto simp: claim_def Let_def distinct_Map_set split: option.splits)
  have 2: "distinct (map fst (snd (heartbeat sha256hex now req m1)))"
    if "distinct (map fst m1)" for m1
    using that by (auto simp: heartbeat_def Let_def distinct_Map_set split: option.splits)
  have 3: "distinct (map fst (snd (release sha256hex req m1)))"
    if "distinct (map fst m1)" for m1
    using that by (auto simp: release_def Map_delete_def distinct_filter_keys split: option.splits)
  show ?thesis using assms c 1[OF c] 2[OF c] 3[OF c] by (simp add: handler_def Let_def)
qed

section \<open>Heartbeat and release\<close>

text \<open>
  C4. A heartbeat for a key whose \<open>expiresAt\<close> has passed is answered 404 "Session not
  found or expired": the sweep at the start of the request removes the entry, so the key
  is no longer in the store, and any later heartbeat for the same key is answered 404 as
  well.
\<close>

theorem heartbeat_expired_not_found:
  assumes "httpMethod req = ''POST''" and "endsWith (urlPath req) ''/heartbeat''"
    and "xSessionKey req = Some k" and "k \<noteq> []"
    and "httpMethod req' = ''POST''" and "endsWith (urlPath req') ''/heartbeat''"
    and "xSessionKey req' = Some k"
    and "distinct (map fst m)" and "Map_get k m = Some s" and "now > expiresAt s"
  shows "handler sha256hex newKey now req m =
           (Response 404 (Error ''Session not found or expired''), cleanupExpiredSessions now m)
       \<and> Map_get k (cleanupExpiredSessions now m) = None
       \<and> handler sha256hex newKey' now' req' (snd (handler sha256hex newKey now req m)) =
           (Response 404 (Error ''Session not found or expired''),
            cleanupExpiredSessions now' (cleanupExpiredSessions now m))"
proof -
  have gone: "Map_get k (cleanupExpiredSessions now m) = None"
    using assms by (simp add: Map_get_cleanup_expired)
  have first: "handler sha256hex newKey now req m =
           (Response 404 (Error ''Session not found or expired''), cleanupExpiredSessions now m)"
    using assms gone by (simp add: handler_def heartbeat_def Let_def)
  have gone': "Map_get k (cleanupExpiredSessions now' (cleanupExpiredSessions now m)) = None"
    using gone by (rule Map_get_cleanup_None)
  have second: "handler sha256hex newKey' now' req' (cleanupExpiredSessions now m) =
           (Response 404 (Error ''Session not found or expired''),
            cleanupExpiredSessions now' (cleanupExpiredSessions now m))"
    using assms gone' by (simp add: handler_def heartbeat_def Let_def)
  show ?thesis using first gone second by simp
qed

theorem heartbeat_expired_not_found_witness:
  "handler id ''k2'' 2000
     (plainRequest ''POST'' ''/api/session/heartbeat'' ''10.0.0.1'' ''curl'' (Some ''k1''))
     [(''k1'', \<lparr>fingerprint = ''10.0.0.1curl'', createdAt = 0, expiresAt = 1000,
               lastHeartbeat = 0, claimed = True\<rparr>)]
     = (Response 404 (Error ''Session not found or expired''), [])
   \<and> handler id ''k3'' 2001
     (plainRequest ''POST'' ''/api/session/heartbeat'' ''10.0.0.1'' ''curl'' (Some ''k1'')) []
     = (Response 404 (Error ''Session not found or expired''), [])"
  using heartbeat_expired_not_found
    [of "plainRequest ''POST'' ''/api/session/heartbeat'' ''10.0.0.1'' ''curl'' (Some ''k1'')"
        "''k1''"
        "plainRequest ''POST'' ''/api/session/heartbeat'' ''10.0.0.1'' ''curl'' (Some ''k1'')"
        "[(''k1'', \<lparr>fingerprint = ''10.0.0.1curl'', createdAt = 0, expiresAt = 1000,
               lastHeartbeat = 0, claimed = True\<rparr>)]"
        "\<lparr>fingerprint = ''10.0.0.1curl'', createdAt = 0, expiresAt = 1000,
               lastHeartbeat = 0, claimed = True\<rparr>"
        2000 id "''k2''" "''k3''" 2001]
  by (simp add: plainRequest_def urlPath_def endsWith_def Map_get_def cleanupExpiredSessions_def
        handler_def heartbeat_def Let_def)

text \<open>
  C5. A heartbeat or a release that names a key present in the store and not expired,
  from a request whose fingerprint differs from the session's, is answered 403, and the
  entry of that key is the same after the request as before: not deleted, and
  \<open>expiresAt\<close> and \<open>lastHeartbeat\<close> as they were. The store after the request is the
  swept store.
\<close>

theorem fingerprint_mismatch_leaves_session:
  assumes "httpMethod req = ''POST''"
    and "endsWith (urlPath req) ''/heartbeat'' \<or> endsWith (urlPath req) ''/release''"
    and "xSessionKey req = Some k" and "k \<noteq> []"
    and "Map_get k m = Some s" and "\<not> now > expiresAt s"
    and "fingerprint s \<noteq> generateFingerprint sha256hex req"
  shows "status (fst (handler sha256hex newKey now req m)) = 403
       \<and> snd (handler sha256hex newKey now req m) = cleanupExpiredSessions now m
       \<and> Map_get k (snd (handler sha256hex newKey now req m)) = Some s"
proof -
  have live: "Map_get k (cleanupExpiredSessions now m) = Some s"
    using assms by (simp add: Map_get_cleanup_live)
  show ?thesis
  proof (cases "endsWith (urlPath req) ''/heartbeat''")
    case True
    then show ?thesis using assms live by (simp add: handler_def heartbeat_def Let_def)
  next
    case False
    then have "endsWith (urlPath req) ''/release''" using assms by simp
    then show ?thesis using assms live False by (simp add: handler_def release_def Let_def)
  qed
qed

theorem fingerprint_mismatch_leaves_session_witness:
  "status (fst (handler id ''k2'' 500
     (plainRequest ''POST'' ''/api/session/release'' ''10.0.0.2'' ''curl'' (Some ''k1''))
     [(''k1'', \<lparr>fingerprint = ''10.0.0.1curl'', createdAt = 0, expiresAt = 1000,
               lastHeartbeat = 0, claimed = True\<rparr>)])) = 403
   \<and> snd (handler id ''k2'' 500
     (plainRequest ''POST'' ''/api/session/release'' ''10.0.0.2'' ''curl'' (Some ''k1''))
     [(''k1'', \<lparr>fingerprint = ''10.0.0.1curl'', createdAt = 0, expiresAt = 1000,
               lastHeartbeat = 0, claimed = True\<rparr>)])
     = [(''k1'', \<lparr>fingerprint = ''10.0.0.1curl'', createdAt = 0, expiresAt = 1000,
               lastHeartbeat = 0, claimed = True\<rparr>)]"
  using fingerprint_mismatch_leaves_session
    [of "plainRequest ''POST'' ''/api/session/release'' ''10.0.0.2'' ''curl'' (Some ''k1'')"
        "''k1''"
        "[(''k1'', \<lparr>fingerprint = ''10.0.0.1curl'', createdAt = 0, expiresAt = 1000,
               lastHeartbeat = 0, claimed = True\<rparr>)]"
        "\<lparr>fingerprint = ''10.0.0.1curl'', createdAt = 0, expiresAt = 1000,
               lastHeartbeat = 0, claimed = True\<rparr>"
        500 id "''k2''"]
  by (simp add: plainRequest_def urlPath_def endsWith_def Map_get_def cleanupExpiredSessions_def
        generateFingerprint_def clientIp_def handler_def release_def Let_def)

section \<open>Claim\<close>

lemma findActive_activeFor:
  "findActive fp now m = (case activeFor fp now m of [] \<Rightarrow> None | e # _ \<Rightarrow> Some e)"
  by (induction m) (auto simp: activeFor_def)

lemma activeFor_cleanup:
  "t \<le> now \<Longrightarrow> activeFor fp now (cleanupExpiredSessions t m) = activeFor fp now m"
  unfolding activeFor_def cleanupExpiredSessions_def
  by (induction m) auto

lemma length_Map_set: "length (Map_set k v m) \<le> Suc (length m)"
  by (induction m) auto

lemma length_otherSessions: "length (otherSessions n e) = n"
  by (induction n) auto

lemma expiresAt_otherSessions: "x \<in> set (otherSessions n e) \<Longrightarrow> expiresAt (snd x) = e"
  by (induction n) auto

lemma fingerprint_otherSessions:
  "x \<in> set (otherSessions n e) \<Longrightarrow> set (fingerprint (snd x)) = {CHR ''f''}"
  by (induction n) auto

lemma claim_reuse_step:
  assumes "isClaim req" and "generateFingerprint sha256hex req = fp"
    and "length (cleanupExpiredSessions now m) < MAX_SESSIONS"
    and "activeFor fp now m = (k, s) # rest"
  shows "handler sha256hex newKey now req m =
           (Response 200 (SessionReused k (expiresAt s)), cleanupExpiredSessions now m)"
proof -
  have "findActive fp now (cleanupExpiredSessions now m) = Some (k, s)"
    using assms(4) by (simp add: findActive_activeFor activeFor_cleanup)
  then show ?thesis
    using assms(1-3) by (simp add: handler_def claim_def isClaim_def Map_size_def Let_def)
qed

lemma claim_full_step:
  assumes "isClaim req" and "MAX_SESSIONS \<le> length (cleanupExpiredSessions now m)"
  shows "handler sha256hex newKey now req m =
           (Response 429 (ErrorMessage ''Session limit reached''
              ''Too many active sessions. Try again later.''), cleanupExpiredSessions now m)"
  using assms by (simp add: handler_def claim_def isClaim_def Map_size_def Let_def)

lemma claim_create_step:
  assumes "isClaim req" and "generateFingerprint sha256hex req = fp"
    and "length (cleanupExpiredSessions now m) < MAX_SESSIONS"
    and "activeFor fp now m = []"
  shows "handler sha256hex newKey now req m =
           (Response 200 (SessionCreated newKey (now + SESSION_TIMEOUT)),
            Map_set newKey \<lparr>fingerprint = fp, createdAt = now, expiresAt = now + SESSION_TIMEOUT,
                lastHeartbeat = now, claimed = True\<rparr> (cleanupExpiredSessions now m))"
proof -
  have "findActive fp now (cleanupExpiredSessions now m) = None"
    using assms(4) by (simp add: findActive_activeFor activeFor_cleanup)
  then show ?thesis
    using assms(1-3) by (simp add: handler_def claim_def isClaim_def Map_size_def Let_def)
qed

lemma cleanup_filter: "cleanupExpiredSessions now m = filter (\<lambda>e. now \<le> expiresAt (snd e)) m"
  by (simp add: cleanupExpiredSessions_def not_less)

lemma isClaim_plain: "isClaim (plainRequest ''GET'' ''/api/session/claim'' ip ua key)"
  by (simp add: isClaim_def plainRequest_def urlPath_def endsWith_def)

lemma fingerprint_plain: "generateFingerprint id (plainRequest meth u ip ua key) = js_or (Some ip) [] @ js_or (Some ua) []"
  by (simp add: generateFingerprint_def clientIp_def plainRequest_def)

lemma cleanup_otherSessions_live:
  "now \<le> e \<Longrightarrow> cleanupExpiredSessions now (otherSessions n e) = otherSessions n e"
  by (rule cleanup_none_expired) (auto simp: expiresAt_otherSessions)

lemma cleanup_otherSessions_expired:
  "e < now \<Longrightarrow> cleanupExpiredSessions now (otherSessions n e) = []"
  by (rule cleanup_all_expired) (auto simp: expiresAt_otherSessions)

lemma activeFor_otherSessions:
  "set fp \<noteq> {CHR ''f''} \<Longrightarrow> activeFor fp now (otherSessions n e) = []"
  unfolding activeFor_def by (auto simp: filter_empty_conv dest: fingerprint_otherSessions)

text \<open>
  The handler with one reading for each call of the clock is \<open>handler\<close> when all
  the readings are the same.
\<close>

lemma findActiveAt_one_reading:
  "fst (findActiveAt fp (\<lambda>n. now) i m) = findActive fp now m"
  by (induction m arbitrary: i) auto

lemma handlerAt_one_reading:
  "fst (handlerAt sha256hex sessionKey (\<lambda>n. now) i req m) = fst (handler sha256hex sessionKey now req m)
   \<and> fst (snd (handlerAt sha256hex sessionKey (\<lambda>n. now) i req m)) = snd (handler sha256hex sessionKey now req m)"
proof -
  have c: "fst (claimAt sha256hex sessionKey (\<lambda>n. now) j req m1) = fst (claim sha256hex sessionKey now req m1)
     \<and> fst (snd (claimAt sha256hex sessionKey (\<lambda>n. now) j req m1)) = snd (claim sha256hex sessionKey now req m1)"
    for j m1
    using findActiveAt_one_reading[of "generateFingerprint sha256hex req" now j m1]
    by (cases "findActiveAt (generateFingerprint sha256hex req) (\<lambda>n. now) j m1")
       (auto simp: claimAt_def claim_def Let_def split: option.splits)
  have h: "fst (heartbeatAt sha256hex (\<lambda>n. now) j req m1) = fst (heartbeat sha256hex now req m1)
     \<and> fst (snd (heartbeatAt sha256hex (\<lambda>n. now) j req m1)) = snd (heartbeat sha256hex now req m1)"
    for j m1
    by (auto simp: heartbeatAt_def heartbeat_def Let_def split: option.splits)
  show ?thesis
    using c h by (simp add: handlerAt_def handler_def Let_def case_prod_unfold)
qed

text \<open>
  What the reuse loop returns, for a clock that does not run backwards.
\<close>

lemma monoD_clk: "mono (clk :: nat \<Rightarrow> int) \<Longrightarrow> a \<le> b \<Longrightarrow> clk a \<le> clk b"
  by (rule monoD)

lemma findActiveAt_found:
  assumes "mono clk" and "findActiveAt fp clk i m = (Some (k, s), j)"
  shows "\<exists>pre post. m = pre @ (k, s) # post \<and> fingerprint s = fp \<and> i < j
           \<and> clk (j - 1) < expiresAt s
           \<and> (\<forall>e \<in> set pre. fingerprint (snd e) = fp \<longrightarrow> expiresAt (snd e) \<le> clk (j - 1))"
  using assms(2)
proof (induction m arbitrary: i)
  case Nil
  then show ?case by simp
next
  case (Cons x m)
  obtain k' s' where x: "x = (k', s')" by (cases x) auto
  show ?case
  proof (cases "fingerprint s' = fp")
    case False
    then have "findActiveAt fp clk i m = (Some (k, s), j)" using Cons.prems x by simp
    from Cons.IH[OF this] obtain pre post where
      p: "m = pre @ (k, s) # post" "fingerprint s = fp" "i < j" "clk (j - 1) < expiresAt s"
         "\<forall>e \<in> set pre. fingerprint (snd e) = fp \<longrightarrow> expiresAt (snd e) \<le> clk (j - 1)"
      by blast
    have "x # m = (x # pre) @ (k, s) # post" using p(1) by simp
    moreover have "\<forall>e \<in> set (x # pre). fingerprint (snd e) = fp \<longrightarrow> expiresAt (snd e) \<le> clk (j - 1)"
      using p(5) False x by simp
    ultimately show ?thesis using p(2,3,4) by blast
  next
    case True
    show ?thesis
    proof (cases "clk i < expiresAt s'")
      case live: True
      then have "k = k'" "s = s'" "j = Suc i" using Cons.prems x True by simp_all
      then have "x # m = [] @ (k, s) # m" using x by simp
      then show ?thesis using True live \<open>s = s'\<close> \<open>j = Suc i\<close> by fastforce
    next
      case dead: False
      then have rec: "findActiveAt fp clk (Suc i) m = (Some (k, s), j)"
        using Cons.prems x True by simp
      from Cons.IH[OF this] obtain pre post where
        p: "m = pre @ (k, s) # post" "fingerprint s = fp" "Suc i < j" "clk (j - 1) < expiresAt s"
           "\<forall>e \<in> set pre. fingerprint (snd e) = fp \<longrightarrow> expiresAt (snd e) \<le> clk (j - 1)"
        by blast
      have "clk i \<le> clk (j - 1)" using assms(1) p(3) by (intro monoD_clk) auto
      then have "expiresAt s' \<le> clk (j - 1)" using dead by simp
      then have "\<forall>e \<in> set (x # pre). fingerprint (snd e) = fp \<longrightarrow> expiresAt (snd e) \<le> clk (j - 1)"
        using p(5) x by simp
      moreover have "x # m = (x # pre) @ (k, s) # post" using p(1) by simp
      moreover have "i < j" using p(3) by simp
      ultimately show ?thesis using p(2,4) by blast
    qed
  qed
qed

lemma findActiveAt_none:
  assumes "mono clk" and "findActiveAt fp clk i m = (None, j)"
  shows "i \<le> j \<and> (\<forall>e \<in> set m. fingerprint (snd e) = fp \<longrightarrow> expiresAt (snd e) \<le> clk j)"
  using assms(2)
proof (induction m arbitrary: i)
  case Nil
  then show ?case by simp
next
  case (Cons x m)
  obtain k' s' where x: "x = (k', s')" by (cases x) auto
  show ?case
  proof (cases "fingerprint s' = fp")
    case False
    then have "findActiveAt fp clk i m = (None, j)" using Cons.prems x by simp
    from Cons.IH[OF this] show ?thesis using False x by simp
  next
    case True
    then have dead: "\<not> clk i < expiresAt s'" and rec: "findActiveAt fp clk (Suc i) m = (None, j)"
      using Cons.prems x by (auto split: if_splits)
    from Cons.IH[OF rec] have ih: "Suc i \<le> j"
      "\<forall>e \<in> set m. fingerprint (snd e) = fp \<longrightarrow> expiresAt (snd e) \<le> clk j" by simp_all
    have "clk i \<le> clk j" using assms(1) ih(1) by (intro monoD_clk) auto
    then have "expiresAt s' \<le> clk j" using dead by simp
    then show ?thesis using ih x by simp
  qed
qed

lemma findActiveAt_first:
  assumes "mono clk" and "fingerprint s = fp" and "\<forall>n. clk n < expiresAt s"
    and "\<forall>e \<in> set pre. fingerprint (snd e) = fp \<longrightarrow> expiresAt (snd e) \<le> clk i"
  shows "\<exists>j. i < j \<and> findActiveAt fp clk i (pre @ (k, s) # post) = (Some (k, s), j)"
  using assms(4)
proof (induction pre arbitrary: i)
  case Nil
  then show ?case using assms(2,3) by simp
next
  case (Cons x pre)
  obtain k' s' where x: "x = (k', s')" by (cases x) auto
  show ?case
  proof (cases "fingerprint s' = fp")
    case False
    have "\<forall>e \<in> set pre. fingerprint (snd e) = fp \<longrightarrow> expiresAt (snd e) \<le> clk i"
      using Cons.prems by simp
    from Cons.IH[OF this] show ?thesis using False x by simp
  next
    case True
    then have dead: "\<not> clk i < expiresAt s'" using Cons.prems x by simp
    have "clk i \<le> clk (Suc i)" using assms(1) by (intro monoD_clk) auto
    then have "\<forall>e \<in> set pre. fingerprint (snd e) = fp \<longrightarrow> expiresAt (snd e) \<le> clk (Suc i)"
      using Cons.prems by fastforce
    from Cons.IH[OF this] obtain j where "Suc i < j"
      "findActiveAt fp clk (Suc i) (pre @ (k, s) # post) = (Some (k, s), j)" by blast
    then show ?thesis using True dead x by auto
  qed
qed

lemma findActiveAt_live:
  assumes "(k0, s0) \<in> set m" and "fingerprint s0 = fp" and "\<forall>n. clk n < expiresAt s0"
  shows "\<exists>k s j. findActiveAt fp clk i m = (Some (k, s), j)"
  using assms(1)
proof (induction m arbitrary: i)
  case Nil
  then show ?case by simp
next
  case (Cons x m)
  obtain k' s' where x: "x = (k', s')" by (cases x) auto
  show ?case
  proof (cases "x = (k0, s0)")
    case True
    then show ?thesis using assms(2,3) by simp
  next
    case False
    then have "(k0, s0) \<in> set m" using Cons.prems by simp
    from Cons.IH[OF this] show ?thesis using x by simp
  qed
qed

lemma cleanup_split:
  assumes "\<not> t > expiresAt s"
  shows "cleanupExpiredSessions t (pre @ (k, s) # post) =
           cleanupExpiredSessions t pre @ (k, s) # cleanupExpiredSessions t post"
  using assms by (simp add: cleanupExpiredSessions_def)

lemma cleanup_subset: "set (cleanupExpiredSessions t m) \<subseteq> set m"
  by (auto simp: cleanupExpiredSessions_def)

lemma Map_set_split:
  "\<exists>pre post. Map_set k v m = pre @ (k, v) # post \<and> set pre \<subseteq> set m \<and> set post \<subseteq> set m"
proof (induction m)
  case Nil
  then show ?case by simp
next
  case (Cons x m)
  obtain k' v' where x: "x = (k', v')" by (cases x) auto
  show ?case
  proof (cases "k' = k")
    case True
    then have "Map_set k v (x # m) = [] @ (k, v) # m" using x by simp
    then show ?thesis by fastforce
  next
    case False
    from Cons.IH obtain pre post where
      p: "Map_set k v m = pre @ (k, v) # post" "set pre \<subseteq> set m" "set post \<subseteq> set m" by blast
    have "Map_set k v (x # m) = (x # pre) @ (k, v) # post" using False x p(1) by simp
    moreover have "set (x # pre) \<subseteq> set (x # m)" "set post \<subseteq> set (x # m)" using p(2,3) by auto
    ultimately show ?thesis by blast
  qed
qed

lemma Map_set_members: "set (Map_set k v m) \<subseteq> insert (k, v) (set m)"
proof -
  obtain pre post where "Map_set k v m = pre @ (k, v) # post" "set pre \<subseteq> set m" "set post \<subseteq> set m"
    using Map_set_split[of k v m] by blast
  then show ?thesis by auto
qed

lemma claimAt_step_reuse:
  assumes "isClaim req" and "generateFingerprint sha256hex req = fp" and "mono clk"
    and "length (cleanupExpiredSessions (clk i) m) < MAX_SESSIONS"
    and "m = pre @ (k, s) # post" and "fingerprint s = fp" and "\<forall>n. clk n < expiresAt s"
    and "\<forall>e \<in> set pre. fingerprint (snd e) = fp \<longrightarrow> expiresAt (snd e) \<le> clk c" and "c \<le> i"
  shows "\<exists>j pre' post'. i < j
           \<and> handlerAt sha256hex newKey clk i req m =
               (Response 200 (SessionReused k (expiresAt s)), cleanupExpiredSessions (clk i) m, j)
           \<and> cleanupExpiredSessions (clk i) m = pre' @ (k, s) # post'
           \<and> (\<forall>e \<in> set pre'. fingerprint (snd e) = fp \<longrightarrow> expiresAt (snd e) \<le> clk c)"
proof -
  let ?pre = "cleanupExpiredSessions (clk i) pre"
  let ?post = "cleanupExpiredSessions (clk i) post"
  have keep: "\<not> clk i > expiresAt s" using assms(7) by (simp add: not_less less_imp_le)
  have sw: "cleanupExpiredSessions (clk i) m = ?pre @ (k, s) # ?post"
    using assms(5) cleanup_split[OF keep] by simp
  have dead: "\<forall>e \<in> set ?pre. fingerprint (snd e) = fp \<longrightarrow> expiresAt (snd e) \<le> clk c"
    using assms(8) cleanup_subset[of "clk i" pre] by blast
  have "clk c \<le> clk (Suc i)" using assms(3,9) by (intro monoD_clk) auto
  then have "\<forall>e \<in> set ?pre. fingerprint (snd e) = fp \<longrightarrow> expiresAt (snd e) \<le> clk (Suc i)"
    using dead by fastforce
  from findActiveAt_first[OF assms(3,6,7) this, of k ?post]
  obtain j where j: "Suc i < j"
    "findActiveAt fp clk (Suc i) (?pre @ (k, s) # ?post) = (Some (k, s), j)" by blast
  have "handlerAt sha256hex newKey clk i req m =
          (Response 200 (SessionReused k (expiresAt s)), cleanupExpiredSessions (clk i) m, j)"
    using assms(1,2,4) j(2) sw
    by (simp add: handlerAt_def claimAt_def isClaim_def Map_size_def Let_def)
  then show ?thesis using j(1) sw dead by (intro exI[of _ j] exI[of _ ?pre] exI[of _ ?post]) simp
qed

lemma serveAt_reuse:
  assumes "mono clk" and "fingerprint s = fp" and "\<forall>n. clk n < expiresAt s"
    and "\<forall>r \<in> set rs. isClaim (snd r) \<and> generateFingerprint sha256hex (snd r) = fp"
    and "length m < MAX_SESSIONS"
    and "m = pre @ (k, s) # post"
    and "\<forall>e \<in> set pre. fingerprint (snd e) = fp \<longrightarrow> expiresAt (snd e) \<le> clk c" and "c \<le> i"
  shows "fst (serveAt sha256hex clk i rs m) =
           replicate (length rs) (Response 200 (SessionReused k (expiresAt s)))
       \<and> set (fst (snd (serveAt sha256hex clk i rs m))) \<subseteq> set m
       \<and> (k, s) \<in> set (fst (snd (serveAt sha256hex clk i rs m)))
       \<and> i \<le> snd (snd (serveAt sha256hex clk i rs m))"
  using assms(4-8)
proof (induction rs arbitrary: i m pre post)
  case Nil
  then show ?case by simp
next
  case (Cons r rs)
  obtain key req where r: "r = (key, req)" by (cases r) auto
  have len: "length (cleanupExpiredSessions (clk i) m) < MAX_SESSIONS"
    using length_cleanup[of "clk i" m] Cons.prems(2) by simp
  have cl: "isClaim req" "generateFingerprint sha256hex req = fp" using Cons.prems(1) r by simp_all
  from claimAt_step_reuse[OF cl assms(1) len Cons.prems(3) assms(2,3) Cons.prems(4,5), of key]
  obtain j pre' post' where st: "i < j"
    "handlerAt sha256hex key clk i req m =
       (Response 200 (SessionReused k (expiresAt s)), cleanupExpiredSessions (clk i) m, j)"
    "cleanupExpiredSessions (clk i) m = pre' @ (k, s) # post'"
    "\<forall>e \<in> set pre'. fingerprint (snd e) = fp \<longrightarrow> expiresAt (snd e) \<le> clk c"
    by blast
  have rest: "\<forall>r \<in> set rs. isClaim (snd r) \<and> generateFingerprint sha256hex (snd r) = fp"
    using Cons.prems(1) by simp
  have cj: "c \<le> j" using Cons.prems(5) st(1) by simp
  note IH = Cons.IH[OF rest len st(3,4) cj]
  have sub: "set (cleanupExpiredSessions (clk i) m) \<subseteq> set m" by (rule cleanup_subset)
  show ?case using st(1,2) IH r sub by (auto simp: case_prod_unfold Let_def)
qed

lemma mono_tickingClock: "mono (tickingClock start)"
  by (auto simp: mono_def tickingClock_def)

lemma handlerAt_claim:
  assumes "isClaim req"
  shows "handlerAt sha256hex newKey clk i req m =
           claimAt sha256hex newKey clk (Suc i) req (cleanupExpiredSessions (clk i) m)"
  using assms by (simp add: handlerAt_def isClaim_def Let_def)

lemma serveAt_Cons:
  assumes "handlerAt sha256hex newKey clk i req m = (r, m1, j)"
  shows "fst (serveAt sha256hex clk i ((newKey, req) # rs) m) = r # fst (serveAt sha256hex clk j rs m1)
       \<and> fst (snd (serveAt sha256hex clk i ((newKey, req) # rs) m)) = fst (snd (serveAt sha256hex clk j rs m1))
       \<and> snd (snd (serveAt sha256hex clk i ((newKey, req) # rs) m)) = snd (snd (serveAt sha256hex clk j rs m1))"
  using assms by (simp add: case_prod_unfold Let_def)

lemma claim_reuse_all_readings:
  assumes "isClaim req" and "generateFingerprint sha256hex req = fp" and "mono clk"
  shows "(Map_size (cleanupExpiredSessions (clk i) m) < MAX_SESSIONS
          \<and> (k0, s0) \<in> set m \<and> fingerprint s0 = fp \<and> (\<forall>n. clk n < expiresAt s0) \<longrightarrow>
          (\<exists>k s j pre post.
              cleanupExpiredSessions (clk i) m = pre @ (k, s) # post
            \<and> fingerprint s = fp \<and> i < j \<and> clk (j - 1) < expiresAt s
            \<and> (\<forall>e \<in> set pre. fingerprint (snd e) = fp \<longrightarrow> expiresAt (snd e) \<le> clk (j - 1))
            \<and> handlerAt sha256hex newKey clk i req m =
                (Response 200 (SessionReused k (expiresAt s)), cleanupExpiredSessions (clk i) m, j)))
       \<and> (MAX_SESSIONS \<le> Map_size (cleanupExpiredSessions (clk i) m) \<longrightarrow>
            handlerAt sha256hex newKey clk i req m =
              (Response 429 (ErrorMessage ''Session limit reached''
                 ''Too many active sessions. Try again later.''),
               cleanupExpiredSessions (clk i) m, Suc i))
       \<and> (Suc (Map_size (cleanupExpiredSessions (clk i) m)) < MAX_SESSIONS
          \<and> (\<forall>r \<in> set rs. isClaim (snd r) \<and> generateFingerprint sha256hex (snd r) = fp)
          \<and> fst (handlerAt sha256hex newKey clk i req m) = Response 200 body
          \<and> (body = SessionCreated k e \<or> body = SessionReused k e)
          \<and> (\<forall>n. clk n < e) \<longrightarrow>
            fst (serveAt sha256hex clk i ((newKey, req) # rs) m) =
              Response 200 body # replicate (length rs) (Response 200 (SessionReused k e))
          \<and> set (fst (snd (serveAt sha256hex clk i ((newKey, req) # rs) m)))
               \<subseteq> set (fst (snd (handlerAt sha256hex newKey clk i req m)))
          \<and> (\<exists>s. (k, s) \<in> set (fst (snd (serveAt sha256hex clk i ((newKey, req) # rs) m)))
                 \<and> fingerprint s = fp \<and> expiresAt s = e
                 \<and> (body = SessionCreated k e \<longrightarrow>
                      (\<forall>x \<in> set (fst (snd (serveAt sha256hex clk i ((newKey, req) # rs) m))).
                          fingerprint (snd x) = fp
                          \<and> clk (snd (snd (serveAt sha256hex clk i ((newKey, req) # rs) m)))
                               < expiresAt (snd x)
                          \<longrightarrow> x = (k, s)))))"
proof (intro conjI impI)
  let ?sw = "cleanupExpiredSessions (clk i) m"
  assume a: "Map_size ?sw < MAX_SESSIONS
          \<and> (k0, s0) \<in> set m \<and> fingerprint s0 = fp \<and> (\<forall>n. clk n < expiresAt s0)"
  then have "\<not> clk i > expiresAt s0" by (simp add: not_less less_imp_le)
  then have "(k0, s0) \<in> set ?sw" using a by (simp add: cleanupExpiredSessions_def)
  then obtain k s j where f: "findActiveAt fp clk (Suc i) ?sw = (Some (k, s), j)"
    using findActiveAt_live[of k0 s0 ?sw fp clk "Suc i"] a by blast
  from findActiveAt_found[OF assms(3) f] obtain pre post where
    p: "?sw = pre @ (k, s) # post" "fingerprint s = fp" "Suc i < j" "clk (j - 1) < expiresAt s"
       "\<forall>e \<in> set pre. fingerprint (snd e) = fp \<longrightarrow> expiresAt (snd e) \<le> clk (j - 1)"
    by blast
  have "handlerAt sha256hex newKey clk i req m =
          (Response 200 (SessionReused k (expiresAt s)), ?sw, j)"
    using handlerAt_claim[OF assms(1), of sha256hex newKey clk i m] a f assms(2)
    by (simp add: claimAt_def Let_def)
  moreover have "i < j" using p(3) by simp
  ultimately show "\<exists>k s j pre post.
              ?sw = pre @ (k, s) # post
            \<and> fingerprint s = fp \<and> i < j \<and> clk (j - 1) < expiresAt s
            \<and> (\<forall>e \<in> set pre. fingerprint (snd e) = fp \<longrightarrow> expiresAt (snd e) \<le> clk (j - 1))
            \<and> handlerAt sha256hex newKey clk i req m =
                (Response 200 (SessionReused k (expiresAt s)), ?sw, j)"
    using p(1,2,4,5) by blast
next
  assume "MAX_SESSIONS \<le> Map_size (cleanupExpiredSessions (clk i) m)"
  then show "handlerAt sha256hex newKey clk i req m =
              (Response 429 (ErrorMessage ''Session limit reached''
                 ''Too many active sessions. Try again later.''),
               cleanupExpiredSessions (clk i) m, Suc i)"
    using handlerAt_claim[OF assms(1), of sha256hex newKey clk i m] by (simp add: claimAt_def)
next
  let ?sw = "cleanupExpiredSessions (clk i) m"
  let ?run = "serveAt sha256hex clk i ((newKey, req) # rs) m"
  assume a: "Suc (Map_size ?sw) < MAX_SESSIONS
          \<and> (\<forall>r \<in> set rs. isClaim (snd r) \<and> generateFingerprint sha256hex (snd r) = fp)
          \<and> fst (handlerAt sha256hex newKey clk i req m) = Response 200 body
          \<and> (body = SessionCreated k e \<or> body = SessionReused k e)
          \<and> (\<forall>n. clk n < e)"
  then have room: "Suc (length ?sw) < MAX_SESSIONS"
    and rs: "\<forall>r \<in> set rs. isClaim (snd r) \<and> generateFingerprint sha256hex (snd r) = fp"
    and first: "fst (handlerAt sha256hex newKey clk i req m) = Response 200 body"
    and shape: "body = SessionCreated k e \<or> body = SessionReused k e"
    and before: "\<forall>n. clk n < e"
    by (simp_all add: Map_size_def)
  have notfull: "\<not> MAX_SESSIONS \<le> Map_size ?sw" using room by (simp add: Map_size_def)
  obtain found j where f: "findActiveAt fp clk (Suc i) ?sw = (found, j)"
    by (cases "findActiveAt fp clk (Suc i) ?sw") auto
  have goal: "fst ?run = Response 200 body # replicate (length rs) (Response 200 (SessionReused k e))
          \<and> set (fst (snd ?run)) \<subseteq> set (fst (snd (handlerAt sha256hex newKey clk i req m)))
          \<and> (\<exists>s. (k, s) \<in> set (fst (snd ?run)) \<and> fingerprint s = fp \<and> expiresAt s = e
                 \<and> (body = SessionCreated k e \<longrightarrow>
                      (\<forall>x \<in> set (fst (snd ?run)).
                          fingerprint (snd x) = fp \<and> clk (snd (snd ?run)) < expiresAt (snd x)
                          \<longrightarrow> x = (k, s))))"
  proof (cases found)
    case (Some ks)
    obtain k' s' where ks: "ks = (k', s')" by (cases ks) auto
    have h: "handlerAt sha256hex newKey clk i req m =
               (Response 200 (SessionReused k' (expiresAt s')), ?sw, j)"
      using handlerAt_claim[OF assms(1), of sha256hex newKey clk i m] notfull f Some ks assms(2)
      by (simp add: claimAt_def Let_def)
    then have b: "body = SessionReused k e" "k' = k" "expiresAt s' = e"
      using first shape by auto
    from findActiveAt_found[OF assms(3)] f Some ks obtain pre post where
      p: "?sw = pre @ (k', s') # post" "fingerprint s' = fp" "Suc i < j"
         "\<forall>e \<in> set pre. fingerprint (snd e) = fp \<longrightarrow> expiresAt (snd e) \<le> clk (j - 1)"
      by blast
    have live: "\<forall>n. clk n < expiresAt s'" using before b(3) by simp
    have len: "length ?sw < MAX_SESSIONS" using room by simp
    have cj: "j - 1 \<le> j" by simp
    note run = serveAt_reuse[OF assms(3) p(2) live rs len p(1,4) cj]
    note un = serveAt_Cons[OF h, of rs]
    have "fst ?run = Response 200 body # replicate (length rs) (Response 200 (SessionReused k e))"
      using un run b by simp
    moreover have "set (fst (snd ?run)) \<subseteq> set (fst (snd (handlerAt sha256hex newKey clk i req m)))"
      using un run h by simp
    moreover have "(k, s') \<in> set (fst (snd ?run)) \<and> fingerprint s' = fp \<and> expiresAt s' = e"
      using un run b p(2) by simp
    moreover have "body \<noteq> SessionCreated k e" using b(1) by simp
    ultimately show ?thesis by blast
  next
    case None
    let ?new = "\<lparr>fingerprint = fp, createdAt = clk (j + 1), expiresAt = clk j + SESSION_TIMEOUT,
                 lastHeartbeat = clk (j + 2), claimed = True\<rparr>"
    let ?m1 = "Map_set newKey ?new ?sw"
    have h: "handlerAt sha256hex newKey clk i req m =
               (Response 200 (SessionCreated newKey (clk j + SESSION_TIMEOUT)), ?m1, j + 3)"
      using handlerAt_claim[OF assms(1), of sha256hex newKey clk i m] notfull f None assms(2)
      by (simp add: claimAt_def Let_def)
    then have b: "body = SessionCreated k e" "newKey = k" "clk j + SESSION_TIMEOUT = e"
      using first shape by auto
    from findActiveAt_none[OF assms(3)] f None have
      dead: "\<forall>x \<in> set ?sw. fingerprint (snd x) = fp \<longrightarrow> expiresAt (snd x) \<le> clk j"
      by blast
    obtain pre post where
      p: "?m1 = pre @ (newKey, ?new) # post" "set pre \<subseteq> set ?sw"
      using Map_set_split[of newKey ?new ?sw] by blast
    have deadpre: "\<forall>x \<in> set pre. fingerprint (snd x) = fp \<longrightarrow> expiresAt (snd x) \<le> clk j"
      using dead p(2) by blast
    have fpnew: "fingerprint ?new = fp" by simp
    have live: "\<forall>n. clk n < expiresAt ?new" using before b(3) by simp
    have len: "length ?m1 < MAX_SESSIONS"
      using length_Map_set[of newKey ?new ?sw] room by simp
    have cj: "j \<le> j + 3" by simp
    note run = serveAt_reuse[OF assms(3) fpnew live rs len p(1) deadpre cj]
    note un = serveAt_Cons[OF h, of rs]
    have r1: "fst ?run = Response 200 body # replicate (length rs) (Response 200 (SessionReused k e))"
      using un run b by simp
    have r2: "set (fst (snd ?run)) \<subseteq> set (fst (snd (handlerAt sha256hex newKey clk i req m)))"
      using un run h by simp
    have r3: "(k, ?new) \<in> set (fst (snd ?run)) \<and> fingerprint ?new = fp \<and> expiresAt ?new = e"
      using un run b by simp
    have r4: "\<forall>x \<in> set (fst (snd ?run)).
                 fingerprint (snd x) = fp \<and> clk (snd (snd ?run)) < expiresAt (snd x)
                 \<longrightarrow> x = (k, ?new)"
    proof (intro ballI impI)
      fix x
      assume x: "x \<in> set (fst (snd ?run))"
        and l: "fingerprint (snd x) = fp \<and> clk (snd (snd ?run)) < expiresAt (snd x)"
      have "x \<in> set ?m1" using x un run by auto
      then have "x = (newKey, ?new) \<or> x \<in> set ?sw"
        using Map_set_members[of newKey ?new ?sw] by auto
      moreover have "x \<notin> set ?sw"
      proof
        assume "x \<in> set ?sw"
        then have "expiresAt (snd x) \<le> clk j" using dead l by blast
        moreover have "j \<le> snd (snd ?run)" using un run by simp
        then have "clk j \<le> clk (snd (snd ?run))" using assms(3) by (intro monoD_clk)
        ultimately show False using l by simp
      qed
      ultimately show "x = (k, ?new)" using b(2) by simp
    qed
    show ?thesis using r1 r2 r3 r4 by blast
  qed
  show "fst ?run = Response 200 body # replicate (length rs) (Response 200 (SessionReused k e))"
    using goal by blast
  show "set (fst (snd ?run)) \<subseteq> set (fst (snd (handlerAt sha256hex newKey clk i req m)))"
    using goal by blast
  show "\<exists>s. (k, s) \<in> set (fst (snd ?run)) \<and> fingerprint s = fp \<and> expiresAt s = e
                 \<and> (body = SessionCreated k e \<longrightarrow>
                      (\<forall>x \<in> set (fst (snd ?run)).
                          fingerprint (snd x) = fp \<and> clk (snd (snd ?run)) < expiresAt (snd x)
                          \<longrightarrow> x = (k, s)))"
    using goal by blast
qed

text \<open>
  A request depends on the clock only through the readings it takes.
\<close>

lemma findActiveAt_counter: "i \<le> snd (findActiveAt fp clk i m)"
proof (induction m arbitrary: i)
  case Nil
  then show ?case by simp
next
  case (Cons x m)
  obtain k s where x: "x = (k, s)" by (cases x) auto
  show ?case using Cons.IH[of i] Cons.IH[of "Suc i"] x by (auto intro: Suc_leD)
qed

lemma findActiveAt_same_readings:
  assumes "\<forall>n < N. clk' n = clk n" and "snd (findActiveAt fp clk i m) \<le> N"
  shows "findActiveAt fp clk' i m = findActiveAt fp clk i m"
  using assms(2)
proof (induction m arbitrary: i)
  case Nil
  then show ?case by simp
next
  case (Cons x m)
  obtain k s where x: "x = (k, s)" by (cases x) auto
  show ?case
  proof (cases "fingerprint s = fp")
    case False
    then show ?thesis using Cons x by simp
  next
    case True
    have "Suc i \<le> snd (findActiveAt fp clk i (x # m))"
      using True x findActiveAt_counter[of "Suc i" fp clk m] by simp
    then have "i < N" using Cons.prems by simp
    then have eq: "clk' i = clk i" using assms(1) by simp
    show ?thesis
    proof (cases "clk i < expiresAt s")
      case True
      then show ?thesis using \<open>fingerprint s = fp\<close> x eq by simp
    next
      case False
      then have "snd (findActiveAt fp clk (Suc i) m) \<le> N" using Cons.prems True x by simp
      from Cons.IH[OF this] show ?thesis using False True x eq by simp
    qed
  qed
qed

lemma claimAt_counter: "i \<le> snd (snd (claimAt sha256hex newKey clk i req m))"
  using findActiveAt_counter[of i "generateFingerprint sha256hex req" clk m]
  by (cases "findActiveAt (generateFingerprint sha256hex req) clk i m")
     (auto simp: claimAt_def Let_def split: option.splits)

lemma claimAt_same_readings:
  assumes "\<forall>n < N. clk' n = clk n" and "snd (snd (claimAt sha256hex newKey clk i req m)) \<le> N"
  shows "claimAt sha256hex newKey clk' i req m = claimAt sha256hex newKey clk i req m"
proof (cases "Map_size m \<ge> MAX_SESSIONS")
  case True
  then show ?thesis by (simp add: claimAt_def)
next
  case False
  let ?fp = "generateFingerprint sha256hex req"
  obtain found j where f: "findActiveAt ?fp clk i m = (found, j)"
    by (cases "findActiveAt ?fp clk i m") auto
  show ?thesis
  proof (cases found)
    case (Some ks)
    then have "j \<le> N" using assms(2) f False by (simp add: claimAt_def Let_def split: prod.splits)
    then have "findActiveAt ?fp clk' i m = (found, j)"
      using findActiveAt_same_readings[OF assms(1), of ?fp i m] f by simp
    then show ?thesis using f Some by (simp add: claimAt_def)
  next
    case None
    then have "j + 3 \<le> N" using assms(2) f False by (simp add: claimAt_def Let_def)
    then have "findActiveAt ?fp clk' i m = (found, j)"
      and "clk' j = clk j" and "clk' (j + 1) = clk (j + 1)" and "clk' (j + 2) = clk (j + 2)"
      using findActiveAt_same_readings[OF assms(1), of ?fp i m] f assms(1) by simp_all
    then show ?thesis using f None by (simp add: claimAt_def)
  qed
qed

lemma heartbeatAt_counter: "i \<le> snd (snd (heartbeatAt sha256hex clk i req m))"
  by (auto simp: heartbeatAt_def Let_def split: option.splits)

lemma heartbeatAt_same_readings:
  assumes "\<forall>n < N. clk' n = clk n" and "snd (snd (heartbeatAt sha256hex clk i req m)) \<le> N"
  shows "heartbeatAt sha256hex clk' i req m = heartbeatAt sha256hex clk i req m"
  using assms by (auto simp: heartbeatAt_def Let_def split: option.splits)

lemma handlerAt_counter: "i \<le> snd (snd (handlerAt sha256hex newKey clk i req m))"
  using claimAt_counter[of "Suc i" sha256hex newKey clk req "cleanupExpiredSessions (clk i) m"]
    heartbeatAt_counter[of "Suc i" sha256hex clk req "cleanupExpiredSessions (clk i) m"]
  by (auto simp: handlerAt_def Let_def case_prod_unfold intro: Suc_leD)

lemma handlerAt_claim_counter:
  "isClaim req \<Longrightarrow> i < snd (snd (handlerAt sha256hex newKey clk i req m))"
  using claimAt_counter[of "Suc i" sha256hex newKey clk req "cleanupExpiredSessions (clk i) m"]
  by (simp add: handlerAt_claim)

lemma handlerAt_same_readings:
  assumes "\<forall>n < N. clk' n = clk n" and "snd (snd (handlerAt sha256hex newKey clk i req m)) \<le> N"
  shows "handlerAt sha256hex newKey clk' i req m = handlerAt sha256hex newKey clk i req m"
proof (cases "httpMethod req = ''OPTIONS''")
  case True
  then show ?thesis by (simp add: handlerAt_def)
next
  case False
  let ?sw = "cleanupExpiredSessions (clk i) m"
  have "Suc i \<le> snd (snd (handlerAt sha256hex newKey clk i req m))"
    using False claimAt_counter[of "Suc i" sha256hex newKey clk req ?sw]
      heartbeatAt_counter[of "Suc i" sha256hex clk req ?sw]
    by (auto simp: handlerAt_def Let_def case_prod_unfold)
  then have "i < N" using assms(2) by simp
  then have eq: "clk' i = clk i" using assms(1) by simp
  have c: "claimAt sha256hex newKey clk' (Suc i) req ?sw = claimAt sha256hex newKey clk (Suc i) req ?sw"
    if "snd (snd (claimAt sha256hex newKey clk (Suc i) req ?sw)) \<le> N"
    using claimAt_same_readings[OF assms(1) that] .
  have h: "heartbeatAt sha256hex clk' (Suc i) req ?sw = heartbeatAt sha256hex clk (Suc i) req ?sw"
    if "snd (snd (heartbeatAt sha256hex clk (Suc i) req ?sw)) \<le> N"
    using heartbeatAt_same_readings[OF assms(1) that] .
  show ?thesis
    using False eq c h assms(2) by (auto simp: handlerAt_def Let_def)
qed

lemma serveAt_counter: "i \<le> snd (snd (serveAt sha256hex clk i rs m))"
proof (induction rs arbitrary: i m)
  case Nil
  then show ?case by simp
next
  case (Cons r rs)
  obtain key req where r: "r = (key, req)" by (cases r) auto
  obtain resp m1 j where h: "handlerAt sha256hex key clk i req m = (resp, m1, j)"
    by (cases "handlerAt sha256hex key clk i req m") auto
  have "i \<le> j" using handlerAt_counter[of i sha256hex key clk req m] h by simp
  moreover have "j \<le> snd (snd (serveAt sha256hex clk j rs m1))" by (rule Cons.IH)
  ultimately show ?case using r h by (simp add: case_prod_unfold Let_def)
qed

lemma serveAt_same_readings:
  assumes "\<forall>n < N. clk' n = clk n" and "snd (snd (serveAt sha256hex clk i rs m)) \<le> N"
  shows "serveAt sha256hex clk' i rs m = serveAt sha256hex clk i rs m"
  using assms(2)
proof (induction rs arbitrary: i m)
  case Nil
  then show ?case by simp
next
  case (Cons r rs)
  obtain key req where r: "r = (key, req)" by (cases r) auto
  obtain resp m1 j where h: "handlerAt sha256hex key clk i req m = (resp, m1, j)"
    by (cases "handlerAt sha256hex key clk i req m") auto
  have fin: "snd (snd (serveAt sha256hex clk j rs m1)) \<le> N"
    using Cons.prems r h by (simp add: case_prod_unfold Let_def)
  have "j \<le> N" using serveAt_counter[of j sha256hex clk rs m1] fin by simp
  then have "handlerAt sha256hex key clk' i req m = (resp, m1, j)"
    using handlerAt_same_readings[OF assms(1), of sha256hex key i req m] h by simp
  moreover have "serveAt sha256hex clk' j rs m1 = serveAt sha256hex clk j rs m1"
    using Cons.IH[OF fin] .
  ultimately show ?case using r h by simp
qed

lemma truncated_clock:
  assumes "mono (clk :: nat \<Rightarrow> int)" and "0 < N" and "\<forall>n < N. clk n < e"
  shows "mono (\<lambda>n. clk (min n (N - 1)))" and "\<forall>n. clk (min n (N - 1)) < e"
    and "\<forall>n < N. clk (min n (N - 1)) = clk n"
proof -
  show "mono (\<lambda>n. clk (min n (N - 1)))"
    using assms(1) by (auto simp: mono_def intro!: min.mono)
  show "\<forall>n. clk (min n (N - 1)) < e"
  proof
    fix n
    have "min n (N - 1) < N" using assms(2) by simp
    then show "clk (min n (N - 1)) < e" using assms(3) by blast
  qed
  show "\<forall>n < N. clk (min n (N - 1)) = clk n"
  proof (intro allI impI)
    fix n assume "n < N"
    then have "min n (N - 1) = n" by simp
    then show "clk (min n (N - 1)) = clk n" by simp
  qed
qed

text \<open>
  The hypothesis on the readings is needed. A session that expires at 1001 survives a
  sweep at reading 1000; when the clock ticks before the reuse loop tests it, the test
  \<open>1001 < 1001\<close> fails and the claim creates a second session for the fingerprint.
\<close>

lemma claim_with_tick_before_reuse_test:
  "handlerAt id ''k2'' (tickingClock 1000) 0
     (plainRequest ''GET'' ''/api/session/claim'' ''10.0.0.1'' ''curl'' None)
     [(''k1'', \<lparr>fingerprint = ''10.0.0.1curl'', createdAt = 0, expiresAt = 1001,
               lastHeartbeat = 0, claimed = True\<rparr>)]
   = (Response 200 (SessionCreated ''k2'' 301002),
      [(''k1'', \<lparr>fingerprint = ''10.0.0.1curl'', createdAt = 0, expiresAt = 1001,
               lastHeartbeat = 0, claimed = True\<rparr>),
       (''k2'', \<lparr>fingerprint = ''10.0.0.1curl'', createdAt = 1003, expiresAt = 301002,
               lastHeartbeat = 1004, claimed = True\<rparr>)], 5)"
  by (simp add: handlerAt_def claimAt_def plainRequest_def urlPath_def endsWith_def Let_def
        cleanupExpiredSessions_def Map_size_def MAX_SESSIONS_def generateFingerprint_def
        clientIp_def SESSION_TIMEOUT_def tickingClock_def)

text \<open>
  C1, as the code has it. The claim branch compares the size of the swept store with
  \<open>MAX_SESSIONS\<close> before it looks for a session to reuse, and every call of
  \<open>Date.now()\<close> takes its own reading of a clock that does not run backwards. For a
  claim request with fingerprint \<open>fp\<close>:
  \<^item> while the swept store holds fewer than \<open>MAX_SESSIONS\<close> entries and some entry of
    fingerprint \<open>fp\<close> is unexpired at every reading the request takes, the claim is
    answered 200 with the key and expiry of an entry of the store: the first entry of
    fingerprint \<open>fp\<close> whose expiry lies after the reading taken when the loop tests it
    (every entry of that fingerprint before it has expired by then). The store is the
    swept store: no entry is added, none changed;
  \<^item> when the swept store holds \<open>MAX_SESSIONS\<close> entries or more, the claim is answered
    429 "Session limit reached", whether or not such an entry exists;
  \<^item> in a run of consecutive claims with fingerprint \<open>fp\<close>, with no other request in
    between, in which the first claim is answered with a key \<open>k\<close> and expiry \<open>e\<close>
    (a session created or reused), every reading of the run lies before \<open>e\<close>, and the
    swept store holds fewer than \<open>MAX_SESSIONS - 1\<close> entries at the first claim (it
    stays below capacity if that claim adds one): every later claim is answered with the
    same key \<open>k\<close> and expiry \<open>e\<close>, no claim after the first adds an entry, and the
    session under \<open>k\<close> is still in the store. If the first claim created the session,
    it is at the end the only session of fingerprint \<open>fp\<close> whose expiry lies after
    the next reading of the clock.
\<close>

theorem claim_reuse_below_capacity:
  assumes "isClaim req" and "generateFingerprint sha256hex req = fp" and "mono clk"
  shows "(Map_size (cleanupExpiredSessions (clk i) m) < MAX_SESSIONS
          \<and> (k0, s0) \<in> set m \<and> fingerprint s0 = fp
          \<and> (\<forall>n < snd (snd (handlerAt sha256hex newKey clk i req m)). clk n < expiresAt s0) \<longrightarrow>
          (\<exists>k s j pre post.
              cleanupExpiredSessions (clk i) m = pre @ (k, s) # post
            \<and> fingerprint s = fp \<and> i < j \<and> clk (j - 1) < expiresAt s
            \<and> (\<forall>e \<in> set pre. fingerprint (snd e) = fp \<longrightarrow> expiresAt (snd e) \<le> clk (j - 1))
            \<and> handlerAt sha256hex newKey clk i req m =
                (Response 200 (SessionReused k (expiresAt s)), cleanupExpiredSessions (clk i) m, j)))
       \<and> (MAX_SESSIONS \<le> Map_size (cleanupExpiredSessions (clk i) m) \<longrightarrow>
            handlerAt sha256hex newKey clk i req m =
              (Response 429 (ErrorMessage ''Session limit reached''
                 ''Too many active sessions. Try again later.''),
               cleanupExpiredSessions (clk i) m, Suc i))
       \<and> (Suc (Map_size (cleanupExpiredSessions (clk i) m)) < MAX_SESSIONS
          \<and> (\<forall>r \<in> set rs. isClaim (snd r) \<and> generateFingerprint sha256hex (snd r) = fp)
          \<and> fst (handlerAt sha256hex newKey clk i req m) = Response 200 body
          \<and> (body = SessionCreated k e \<or> body = SessionReused k e)
          \<and> (\<forall>n < snd (snd (serveAt sha256hex clk i ((newKey, req) # rs) m)). clk n < e) \<longrightarrow>
            fst (serveAt sha256hex clk i ((newKey, req) # rs) m) =
              Response 200 body # replicate (length rs) (Response 200 (SessionReused k e))
          \<and> set (fst (snd (serveAt sha256hex clk i ((newKey, req) # rs) m)))
               \<subseteq> set (fst (snd (handlerAt sha256hex newKey clk i req m)))
          \<and> (\<exists>s. (k, s) \<in> set (fst (snd (serveAt sha256hex clk i ((newKey, req) # rs) m)))
                 \<and> fingerprint s = fp \<and> expiresAt s = e
                 \<and> (body = SessionCreated k e \<longrightarrow>
                      (\<forall>x \<in> set (fst (snd (serveAt sha256hex clk i ((newKey, req) # rs) m))).
                          fingerprint (snd x) = fp
                          \<and> clk (snd (snd (serveAt sha256hex clk i ((newKey, req) # rs) m)))
                               < expiresAt (snd x)
                          \<longrightarrow> x = (k, s)))))"
proof (intro conjI impI)
  let ?N = "snd (snd (handlerAt sha256hex newKey clk i req m))"
  let ?c = "\<lambda>n. clk (min n (?N - 1))"
  assume a: "Map_size (cleanupExpiredSessions (clk i) m) < MAX_SESSIONS
          \<and> (k0, s0) \<in> set m \<and> fingerprint s0 = fp
          \<and> (\<forall>n < ?N. clk n < expiresAt s0)"
  have pos: "i < ?N" using assms(1) by (rule handlerAt_claim_counter)
  then have N0: "0 < ?N" by simp
  have bound: "\<forall>n < ?N. clk n < expiresAt s0" using a by simp
  note t = truncated_clock[OF assms(3) N0 bound]
  have same: "handlerAt sha256hex newKey ?c i req m = handlerAt sha256hex newKey clk i req m"
    using handlerAt_same_readings[OF t(3), of sha256hex newKey i req m] by simp
  have ci: "?c i = clk i" using t(3) pos by blast
  have hyp: "Map_size (cleanupExpiredSessions (?c i) m) < MAX_SESSIONS
          \<and> (k0, s0) \<in> set m \<and> fingerprint s0 = fp \<and> (\<forall>n. ?c n < expiresAt s0)"
    using a t(2) by (simp only: ci) simp
  from claim_reuse_all_readings[where i = i and m = m and ?k0.0 = k0 and ?s0.0 = s0
         and newKey = newKey, OF assms(1,2) t(1), THEN conjunct1] hyp
  obtain k s j pre post where r:
      "cleanupExpiredSessions (?c i) m = pre @ (k, s) # post" "fingerprint s = fp" "i < j"
      "?c (j - 1) < expiresAt s"
      "\<forall>e \<in> set pre. fingerprint (snd e) = fp \<longrightarrow> expiresAt (snd e) \<le> ?c (j - 1)"
      "handlerAt sha256hex newKey ?c i req m =
         (Response 200 (SessionReused k (expiresAt s)), cleanupExpiredSessions (?c i) m, j)"
    by blast
  have hc: "handlerAt sha256hex newKey clk i req m =
              (Response 200 (SessionReused k (expiresAt s)), cleanupExpiredSessions (?c i) m, j)"
    using r(6) unfolding same .
  have "j = ?N" using arg_cong[OF hc, of "\<lambda>p. snd (snd p)"] by simp
  then have "j - 1 < ?N" using r(3) by simp
  then have cj: "?c (j - 1) = clk (j - 1)" using t(3) by blast
  show "\<exists>k s j pre post.
              cleanupExpiredSessions (clk i) m = pre @ (k, s) # post
            \<and> fingerprint s = fp \<and> i < j \<and> clk (j - 1) < expiresAt s
            \<and> (\<forall>e \<in> set pre. fingerprint (snd e) = fp \<longrightarrow> expiresAt (snd e) \<le> clk (j - 1))
            \<and> handlerAt sha256hex newKey clk i req m =
                (Response 200 (SessionReused k (expiresAt s)), cleanupExpiredSessions (clk i) m, j)"
    using r(1-5) hc unfolding ci cj by blast
next
  assume "MAX_SESSIONS \<le> Map_size (cleanupExpiredSessions (clk i) m)"
  then show "handlerAt sha256hex newKey clk i req m =
              (Response 429 (ErrorMessage ''Session limit reached''
                 ''Too many active sessions. Try again later.''),
               cleanupExpiredSessions (clk i) m, Suc i)"
    using claim_reuse_all_readings[OF assms, THEN conjunct2, THEN conjunct1] by blast
next
  let ?run = "serveAt sha256hex clk i ((newKey, req) # rs) m"
  let ?N = "snd (snd ?run)"
  let ?c = "\<lambda>n. clk (min n (?N - 1))"
  let ?run' = "serveAt sha256hex ?c i ((newKey, req) # rs) m"
  assume a: "Suc (Map_size (cleanupExpiredSessions (clk i) m)) < MAX_SESSIONS
          \<and> (\<forall>r \<in> set rs. isClaim (snd r) \<and> generateFingerprint sha256hex (snd r) = fp)
          \<and> fst (handlerAt sha256hex newKey clk i req m) = Response 200 body
          \<and> (body = SessionCreated k e \<or> body = SessionReused k e)
          \<and> (\<forall>n < ?N. clk n < e)"
  obtain r1 m1 j1 where h: "handlerAt sha256hex newKey clk i req m = (r1, m1, j1)"
    by (cases "handlerAt sha256hex newKey clk i req m") auto
  have "i < j1" using handlerAt_claim_counter[OF assms(1), of i sha256hex newKey clk m] h by simp
  moreover have j1N: "j1 \<le> ?N"
    using serveAt_Cons[OF h, of rs] serveAt_counter[of j1 sha256hex clk rs m1] by simp
  ultimately have pos: "i < ?N" by simp
  then have N0: "0 < ?N" by simp
  have bound: "\<forall>n < ?N. clk n < e" using a by simp
  note t = truncated_clock[OF assms(3) N0 bound]
  have sameh: "handlerAt sha256hex newKey ?c i req m = handlerAt sha256hex newKey clk i req m"
    using handlerAt_same_readings[OF t(3), of sha256hex newKey i req m] h j1N by simp
  have samer: "?run' = ?run"
    using serveAt_same_readings[OF t(3), of sha256hex i "(newKey, req) # rs" m] by simp
  have ci: "?c i = clk i" using t(3) pos by blast
  have hyp: "Suc (Map_size (cleanupExpiredSessions (?c i) m)) < MAX_SESSIONS
          \<and> (\<forall>r \<in> set rs. isClaim (snd r) \<and> generateFingerprint sha256hex (snd r) = fp)
          \<and> fst (handlerAt sha256hex newKey ?c i req m) = Response 200 body
          \<and> (body = SessionCreated k e \<or> body = SessionReused k e)
          \<and> (\<forall>n. ?c n < e)"
    using a t(2) unfolding sameh by (simp only: ci) simp
  from claim_reuse_all_readings[where i = i and m = m and newKey = newKey and rs = rs
         and body = body and k = k and e = e, OF assms(1,2) t(1),
         THEN conjunct2, THEN conjunct2] hyp
  have res: "fst ?run' =
              Response 200 body # replicate (length rs) (Response 200 (SessionReused k e))
          \<and> set (fst (snd ?run')) \<subseteq> set (fst (snd (handlerAt sha256hex newKey ?c i req m)))
          \<and> (\<exists>s. (k, s) \<in> set (fst (snd ?run')) \<and> fingerprint s = fp \<and> expiresAt s = e
                 \<and> (body = SessionCreated k e \<longrightarrow>
                      (\<forall>x \<in> set (fst (snd ?run')).
                          fingerprint (snd x) = fp \<and> ?c (snd (snd ?run')) < expiresAt (snd x)
                          \<longrightarrow> x = (k, s))))"
    by blast
  have le: "?c ?N \<le> clk ?N" by (rule monoD_clk[OF assms(3)]) (rule min.cobounded1)
  show "fst ?run = Response 200 body # replicate (length rs) (Response 200 (SessionReused k e))"
    using res unfolding samer by blast
  show "set (fst (snd ?run)) \<subseteq> set (fst (snd (handlerAt sha256hex newKey clk i req m)))"
    using res unfolding samer sameh by blast
  from res obtain s where s: "(k, s) \<in> set (fst (snd ?run))" "fingerprint s = fp"
      "expiresAt s = e"
      "body = SessionCreated k e \<longrightarrow>
         (\<forall>x \<in> set (fst (snd ?run)).
             fingerprint (snd x) = fp \<and> ?c ?N < expiresAt (snd x) \<longrightarrow> x = (k, s))"
    unfolding samer by blast
  have "body = SessionCreated k e \<longrightarrow>
         (\<forall>x \<in> set (fst (snd ?run)).
             fingerprint (snd x) = fp \<and> clk ?N < expiresAt (snd x) \<longrightarrow> x = (k, s))"
  proof (intro impI ballI)
    fix x
    assume c: "body = SessionCreated k e" and x: "x \<in> set (fst (snd ?run))"
      and l: "fingerprint (snd x) = fp \<and> clk ?N < expiresAt (snd x)"
    have "?c ?N < expiresAt (snd x)" using l le by simp
    then show "x = (k, s)" using s(4) c x l by blast
  qed
  then show "\<exists>s. (k, s) \<in> set (fst (snd ?run)) \<and> fingerprint s = fp \<and> expiresAt s = e
                 \<and> (body = SessionCreated k e \<longrightarrow>
                      (\<forall>x \<in> set (fst (snd ?run)).
                          fingerprint (snd x) = fp \<and> clk ?N < expiresAt (snd x)
                          \<longrightarrow> x = (k, s)))"
    using s(1,2,3) by blast
qed

theorem claim_reuse_below_capacity_witness:
  "handlerAt id ''k2'' (tickingClock 500) 0
     (plainRequest ''GET'' ''/api/session/claim'' ''10.0.0.1'' ''curl'' None)
     [(''k1'', \<lparr>fingerprint = ''10.0.0.1curl'', createdAt = 0, expiresAt = 1000,
               lastHeartbeat = 0, claimed = True\<rparr>)]
     = (Response 200 (SessionReused ''k1'' 1000),
        [(''k1'', \<lparr>fingerprint = ''10.0.0.1curl'', createdAt = 0, expiresAt = 1000,
               lastHeartbeat = 0, claimed = True\<rparr>)], 2)
   \<and> handlerAt id ''k2'' (tickingClock 500) 0
        (plainRequest ''GET'' ''/api/session/claim'' ''10.0.0.1'' ''curl'' None)
        (otherSessions 100 1000)
     = (Response 429 (ErrorMessage ''Session limit reached''
                 ''Too many active sessions. Try again later.''), otherSessions 100 1000, 1)
   \<and> fst (serveAt id (tickingClock 500) 0
        [(''k2'', plainRequest ''GET'' ''/api/session/claim'' ''10.0.0.1'' ''curl'' None),
         (''k3'', plainRequest ''GET'' ''/api/session/claim'' ''10.0.0.1'' ''curl'' None)] [])
     = [Response 200 (SessionCreated ''k2'' 300501), Response 200 (SessionReused ''k2'' 300501)]"
proof -
  let ?req = "plainRequest ''GET'' ''/api/session/claim'' ''10.0.0.1'' ''curl'' None"
  let ?s1 = "\<lparr>fingerprint = ''10.0.0.1curl'', createdAt = 0, expiresAt = 1000,
               lastHeartbeat = 0, claimed = True\<rparr>"
  let ?clk = "tickingClock 500"
  have c: "isClaim ?req" by (rule isClaim_plain)
  have f: "generateFingerprint id ?req = ''10.0.0.1curl''"
    by (simp add: generateFingerprint_def clientIp_def plainRequest_def)
  have mo: "mono ?clk" by (rule mono_tickingClock)
  note inst = claim_reuse_below_capacity[OF c f mo]

  have ev1: "handlerAt id ''k2'' ?clk 0 ?req [(''k1'', ?s1)] =
               (Response 200 (SessionReused ''k1'' 1000), [(''k1'', ?s1)], 2)"
    using c f
    by (simp add: handlerAt_claim claimAt_def cleanupExpiredSessions_def Map_size_def
          MAX_SESSIONS_def tickingClock_def)
  have hyp1: "Map_size (cleanupExpiredSessions (?clk 0) [(''k1'', ?s1)]) < MAX_SESSIONS
          \<and> (''k1'', ?s1) \<in> set [(''k1'', ?s1)] \<and> fingerprint ?s1 = ''10.0.0.1curl''
          \<and> (\<forall>n < snd (snd (handlerAt id ''k2'' ?clk 0 ?req [(''k1'', ?s1)])). ?clk n < expiresAt ?s1)"
    unfolding ev1
    by (auto simp: cleanupExpiredSessions_def Map_size_def MAX_SESSIONS_def tickingClock_def)
  have "\<exists>k s j pre post.
              cleanupExpiredSessions (?clk 0) [(''k1'', ?s1)] = pre @ (k, s) # post
            \<and> fingerprint s = ''10.0.0.1curl'' \<and> 0 < j \<and> ?clk (j - 1) < expiresAt s
            \<and> (\<forall>e \<in> set pre. fingerprint (snd e) = ''10.0.0.1curl'' \<longrightarrow> expiresAt (snd e) \<le> ?clk (j - 1))
            \<and> handlerAt id ''k2'' ?clk 0 ?req [(''k1'', ?s1)] =
                (Response 200 (SessionReused k (expiresAt s)),
                 cleanupExpiredSessions (?clk 0) [(''k1'', ?s1)], j)"
    using inst[THEN conjunct1, of 0 "[(''k1'', ?s1)]" "''k1''" ?s1 "''k2''"] hyp1 by blast
  then have one: "handlerAt id ''k2'' ?clk 0 ?req [(''k1'', ?s1)] =
               (Response 200 (SessionReused ''k1'' 1000), [(''k1'', ?s1)], 2)"
    using ev1 by simp

  have sw: "cleanupExpiredSessions (?clk 0) (otherSessions 100 1000) = otherSessions 100 1000"
    by (rule cleanup_otherSessions_live) (simp add: tickingClock_def)
  have hyp2: "MAX_SESSIONS \<le> Map_size (cleanupExpiredSessions (?clk 0) (otherSessions 100 1000))"
    unfolding sw by (simp add: Map_size_def length_otherSessions MAX_SESSIONS_def)
  have two: "handlerAt id ''k2'' ?clk 0 ?req (otherSessions 100 1000) =
               (Response 429 (ErrorMessage ''Session limit reached''
                 ''Too many active sessions. Try again later.''), otherSessions 100 1000, 1)"
    using inst[THEN conjunct2, THEN conjunct1, of 0 "otherSessions 100 1000" "''k2''"] hyp2
    unfolding sw by simp

  let ?rs = "[(''k3'', ?req)]"
  have ev3: "serveAt id ?clk 0 ((''k2'', ?req) # ?rs) [] =
      ([Response 200 (SessionCreated ''k2'' 300501), Response 200 (SessionReused ''k2'' 300501)],
       [(''k2'', \<lparr>fingerprint = ''10.0.0.1curl'', createdAt = 502, expiresAt = 300501,
               lastHeartbeat = 503, claimed = True\<rparr>)], 6)"
    using c f
    by (simp add: handlerAt_claim claimAt_def cleanupExpiredSessions_def Map_size_def
          MAX_SESSIONS_def tickingClock_def SESSION_TIMEOUT_def)
  have evh: "fst (handlerAt id ''k2'' ?clk 0 ?req []) = Response 200 (SessionCreated ''k2'' 300501)"
    using c f
    by (simp add: handlerAt_claim claimAt_def cleanupExpiredSessions_def Map_size_def
          MAX_SESSIONS_def tickingClock_def SESSION_TIMEOUT_def)
  have hyp3: "Suc (Map_size (cleanupExpiredSessions (?clk 0) [])) < MAX_SESSIONS
          \<and> (\<forall>r \<in> set ?rs. isClaim (snd r) \<and> generateFingerprint id (snd r) = ''10.0.0.1curl'')
          \<and> fst (handlerAt id ''k2'' ?clk 0 ?req []) = Response 200 (SessionCreated ''k2'' 300501)
          \<and> (SessionCreated ''k2'' 300501 = SessionCreated ''k2'' 300501
               \<or> SessionCreated ''k2'' 300501 = SessionReused ''k2'' 300501)
          \<and> (\<forall>n < snd (snd (serveAt id ?clk 0 ((''k2'', ?req) # ?rs) [])). ?clk n < 300501)"
    unfolding ev3 using c f evh
    by (auto simp: cleanupExpiredSessions_def Map_size_def MAX_SESSIONS_def tickingClock_def)
  have three: "fst (serveAt id ?clk 0 ((''k2'', ?req) # ?rs) []) =
      Response 200 (SessionCreated ''k2'' 300501)
        # replicate (length ?rs) (Response 200 (SessionReused ''k2'' 300501))"
    using inst[THEN conjunct2, THEN conjunct2, of 0 "[]" ?rs "''k2''"
               "SessionCreated ''k2'' 300501" "''k2''" 300501] hyp3 by blast
  show ?thesis using one two three by simp
qed

text \<open>
  C1 as stated fails: with \<open>MAX_SESSIONS\<close> unexpired entries in the store, one of them
  with the fingerprint of the request, the claim is answered 429 and not with that
  entry's key.
\<close>

theorem claim_rejected_despite_live_session:
  "findActive ''10.0.0.1curl'' 500
     ((''k0'', \<lparr>fingerprint = ''10.0.0.1curl'', createdAt = 0, expiresAt = 1000,
               lastHeartbeat = 0, claimed = True\<rparr>) # otherSessions 99 1000)
     = Some (''k0'', \<lparr>fingerprint = ''10.0.0.1curl'', createdAt = 0, expiresAt = 1000,
               lastHeartbeat = 0, claimed = True\<rparr>)
   \<and> fst (handler id ''k2'' 500
        (plainRequest ''GET'' ''/api/session/claim'' ''10.0.0.1'' ''curl'' None)
        ((''k0'', \<lparr>fingerprint = ''10.0.0.1curl'', createdAt = 0, expiresAt = 1000,
               lastHeartbeat = 0, claimed = True\<rparr>) # otherSessions 99 1000))
     = Response 429 (ErrorMessage ''Session limit reached''
                 ''Too many active sessions. Try again later.'')"
proof -
  let ?req = "plainRequest ''GET'' ''/api/session/claim'' ''10.0.0.1'' ''curl'' None"
  let ?s0 = "\<lparr>fingerprint = ''10.0.0.1curl'', createdAt = 0, expiresAt = 1000,
               lastHeartbeat = 0, claimed = True\<rparr>"
  let ?m = "(''k0'', ?s0) # otherSessions 99 1000"
  have cl: "cleanupExpiredSessions 500 ?m = ?m"
    by (rule cleanup_none_expired) (auto simp: expiresAt_otherSessions)
  have "MAX_SESSIONS \<le> length (cleanupExpiredSessions 500 ?m)"
    unfolding cl by (simp add: length_otherSessions MAX_SESSIONS_def)
  then have "handler id ''k2'' 500 ?req ?m =
           (Response 429 (ErrorMessage ''Session limit reached''
              ''Too many active sessions. Try again later.''), cleanupExpiredSessions 500 ?m)"
    using claim_full_step[of ?req 500 ?m id "''k2''"] isClaim_plain by blast
  then show ?thesis by simp
qed

text \<open>
  C2. The sweep keeps an entry while \<open>now > expiresAt\<close> is false, and so does
  \<open>validateSession\<close>; the claim branch reuses an entry only while \<open>now < expiresAt\<close>. A
  client claims at time 0 and again, \<open>SESSION_TIMEOUT\<close> later, in the millisecond
  \<open>now = expiresAt\<close> of its session: the second claim finds the session in the store,
  does not reuse it and inserts a second session with the same fingerprint, while
  \<open>validateSession\<close> at that instant still accepts the first.
\<close>

theorem claim_at_expiry_instant_adds_second_session:
  "serve id
     [(''k1'', 0, plainRequest ''GET'' ''/api/session/claim'' ''10.0.0.1'' ''curl'' None),
      (''k2'', 300000, plainRequest ''GET'' ''/api/session/claim'' ''10.0.0.1'' ''curl'' None)]
     []
   = ([Response 200 (SessionCreated ''k1'' 300000), Response 200 (SessionCreated ''k2'' 600000)],
      [(''k1'', \<lparr>fingerprint = ''10.0.0.1curl'', createdAt = 0, expiresAt = 300000,
               lastHeartbeat = 0, claimed = True\<rparr>),
       (''k2'', \<lparr>fingerprint = ''10.0.0.1curl'', createdAt = 300000, expiresAt = 600000,
               lastHeartbeat = 300000, claimed = True\<rparr>)])
   \<and> fst (validateSession id 300000 ''k1''
        (plainRequest ''POST'' ''/api/neuro-os/vision'' ''10.0.0.1'' ''curl'' (Some ''k1''))
        [(''k1'', \<lparr>fingerprint = ''10.0.0.1curl'', createdAt = 0, expiresAt = 300000,
                 lastHeartbeat = 0, claimed = True\<rparr>),
         (''k2'', \<lparr>fingerprint = ''10.0.0.1curl'', createdAt = 300000, expiresAt = 600000,
                 lastHeartbeat = 300000, claimed = True\<rparr>)])
     = Valid"
  by (simp add: handler_def claim_def plainRequest_def urlPath_def endsWith_def Let_def
        cleanupExpiredSessions_def Map_size_def MAX_SESSIONS_def generateFingerprint_def
        clientIp_def SESSION_TIMEOUT_def validateSession_def Map_get_def)

text \<open>
  C3, as the code has it. The handler sweeps before the claim branch compares
  \<open>sessions.size\<close> with \<open>MAX_SESSIONS\<close>, so the comparison counts only the entries with
  \<open>now \<le> expiresAt\<close>: a claim is answered 429 exactly when at least \<open>MAX_SESSIONS\<close>
  such entries exist. With exactly \<open>MAX_SESSIONS\<close> of them it is answered 429; with
  \<open>MAX_SESSIONS - 1\<close> of them and no active session for the fingerprint it creates a
  session.
\<close>

theorem claim_capacity_counts_swept_store:
  assumes "isClaim req" and "generateFingerprint sha256hex req = fp"
  shows "(status (fst (handler sha256hex newKey now req m)) = 429
            \<longleftrightarrow> MAX_SESSIONS \<le> length (filter (\<lambda>e. now \<le> expiresAt (snd e)) m))
       \<and> (length (filter (\<lambda>e. now \<le> expiresAt (snd e)) m) = MAX_SESSIONS \<longrightarrow>
            handler sha256hex newKey now req m =
              (Response 429 (ErrorMessage ''Session limit reached''
                 ''Too many active sessions. Try again later.''), cleanupExpiredSessions now m))
       \<and> (Suc (length (filter (\<lambda>e. now \<le> expiresAt (snd e)) m)) = MAX_SESSIONS
            \<and> activeFor fp now m = [] \<longrightarrow>
            handler sha256hex newKey now req m =
              (Response 200 (SessionCreated newKey (now + SESSION_TIMEOUT)),
               Map_set newKey
                 \<lparr>fingerprint = fp, createdAt = now, expiresAt = now + SESSION_TIMEOUT,
                  lastHeartbeat = now, claimed = True\<rparr> (cleanupExpiredSessions now m)))"
proof (intro conjI impI)
  show "status (fst (handler sha256hex newKey now req m)) = 429
            \<longleftrightarrow> MAX_SESSIONS \<le> length (filter (\<lambda>e. now \<le> expiresAt (snd e)) m)"
  proof (cases "MAX_SESSIONS \<le> length (cleanupExpiredSessions now m)")
    case True
    then show ?thesis
      using claim_full_step[of req now m sha256hex newKey] assms(1) by (simp add: cleanup_filter)
  next
    case False
    then have lt: "length (cleanupExpiredSessions now m) < MAX_SESSIONS" by simp
    have "status (fst (handler sha256hex newKey now req m)) = 200"
    proof (cases "activeFor fp now m")
      case Nil
      then show ?thesis
        using claim_create_step[of req sha256hex fp now m newKey] assms lt by simp
    next
      case (Cons e rest)
      then show ?thesis
        using claim_reuse_step[of req sha256hex fp now m "fst e" "snd e" rest newKey] assms lt
        by simp
    qed
    then show ?thesis using False by (simp add: cleanup_filter)
  qed
next
  assume "length (filter (\<lambda>e. now \<le> expiresAt (snd e)) m) = MAX_SESSIONS"
  then show "handler sha256hex newKey now req m =
              (Response 429 (ErrorMessage ''Session limit reached''
                 ''Too many active sessions. Try again later.''), cleanupExpiredSessions now m)"
    using claim_full_step[of req now m sha256hex newKey] assms(1) by (simp add: cleanup_filter)
next
  assume a: "Suc (length (filter (\<lambda>e. now \<le> expiresAt (snd e)) m)) = MAX_SESSIONS
            \<and> activeFor fp now m = []"
  then have "length (cleanupExpiredSessions now m) < MAX_SESSIONS"
    by (simp add: cleanup_filter)
  then show "handler sha256hex newKey now req m =
              (Response 200 (SessionCreated newKey (now + SESSION_TIMEOUT)),
               Map_set newKey
                 \<lparr>fingerprint = fp, createdAt = now, expiresAt = now + SESSION_TIMEOUT,
                  lastHeartbeat = now, claimed = True\<rparr> (cleanupExpiredSessions now m))"
    using claim_create_step[of req sha256hex fp now m newKey] assms a by simp
qed

theorem claim_capacity_counts_swept_store_witness:
  "status (fst (handler id ''k2'' 500
        (plainRequest ''GET'' ''/api/session/claim'' ''10.0.0.1'' ''curl'' None)
        (otherSessions 100 1000))) = 429
   \<and> fst (handler id ''k2'' 500
        (plainRequest ''GET'' ''/api/session/claim'' ''10.0.0.1'' ''curl'' None)
        (otherSessions 99 1000))
     = Response 200 (SessionCreated ''k2'' 300500)"
proof -
  let ?req = "plainRequest ''GET'' ''/api/session/claim'' ''10.0.0.1'' ''curl'' None"
  have c: "isClaim ?req" by (rule isClaim_plain)
  have f: "generateFingerprint id ?req = ''10.0.0.1curl''" by (simp add: fingerprint_plain)
  have l1: "filter (\<lambda>e. 500 \<le> expiresAt (snd e)) (otherSessions 100 1000) = otherSessions 100 1000"
    using cleanup_otherSessions_live[of 500 1000 100] by (simp add: cleanup_filter)
  have l2: "filter (\<lambda>e. 500 \<le> expiresAt (snd e)) (otherSessions 99 1000) = otherSessions 99 1000"
    using cleanup_otherSessions_live[of 500 1000 99] by (simp add: cleanup_filter)
  have one: "status (fst (handler id ''k2'' 500 ?req (otherSessions 100 1000))) = 429"
    using claim_capacity_counts_swept_store[OF c f, of "''k2''" 500 "otherSessions 100 1000"] l1
    by (simp add: length_otherSessions MAX_SESSIONS_def)
  have two: "fst (handler id ''k2'' 500 ?req (otherSessions 99 1000))
               = Response 200 (SessionCreated ''k2'' 300500)"
    using claim_capacity_counts_swept_store[OF c f, of "''k2''" 500 "otherSessions 99 1000"] l2
      activeFor_otherSessions[of "''10.0.0.1curl''" 500 99 1000]
    by (simp add: length_otherSessions MAX_SESSIONS_def SESSION_TIMEOUT_def)
  show ?thesis using one two by simp
qed

text \<open>
  C3 as stated fails: a table of \<open>MAX_SESSIONS\<close> entries, all expired and not yet
  swept, does not count toward the limit; the claim is accepted and leaves the new
  session alone in the store.
\<close>

theorem claim_accepted_with_full_table_of_expired:
  "Map_size (otherSessions 100 1000) = MAX_SESSIONS
   \<and> handler id ''k2'' 2000
        (plainRequest ''GET'' ''/api/session/claim'' ''10.0.0.1'' ''curl'' None)
        (otherSessions 100 1000)
     = (Response 200 (SessionCreated ''k2'' 302000),
        [(''k2'', \<lparr>fingerprint = ''10.0.0.1curl'', createdAt = 2000, expiresAt = 302000,
               lastHeartbeat = 2000, claimed = True\<rparr>)])"
proof -
  let ?req = "plainRequest ''GET'' ''/api/session/claim'' ''10.0.0.1'' ''curl'' None"
  have cl: "cleanupExpiredSessions 2000 (otherSessions 100 1000) = []"
    by (simp add: cleanup_otherSessions_expired)
  have "handler id ''k2'' 2000 ?req (otherSessions 100 1000) =
          (Response 200 (SessionCreated ''k2'' (2000 + SESSION_TIMEOUT)),
            Map_set ''k2'' \<lparr>fingerprint = ''10.0.0.1curl'', createdAt = 2000,
                expiresAt = 2000 + SESSION_TIMEOUT,
                lastHeartbeat = 2000, claimed = True\<rparr>
              (cleanupExpiredSessions 2000 (otherSessions 100 1000)))"
    using claim_create_step[of ?req id "''10.0.0.1curl''" 2000 "otherSessions 100 1000" "''k2''"]
      isClaim_plain[of "''10.0.0.1''" "''curl''" None] cl
      activeFor_otherSessions[of "''10.0.0.1curl''" 2000 100 1000]
    by (simp add: fingerprint_plain MAX_SESSIONS_def)
  then show ?thesis
    unfolding cl by (simp add: Map_size_def length_otherSessions MAX_SESSIONS_def SESSION_TIMEOUT_def)
qed

section \<open>The rate limiter\<close>









section \<open>The order of the checks of the vision endpoint\<close>

lemma vision_unauthorized:
  assumes "httpMethod req = ''POST''" and "validateSessionKey sha256hex now req (fst st) = (Invalid reason, m1)"
  shows "vision_handler sha256hex groq now req st =
           (Response 401 (ErrorMessage ''Unauthorized'' (js_or (Some reason) ''Invalid session key'')),
            (m1, snd st), [CallValidateSession])"
  using assms by (simp add: vision_handler_def)

lemma vision_rate_limited:
  assumes "httpMethod req = ''POST''" and "validateSessionKey sha256hex now req (fst st) = (Valid, m1)"
    and "checkRateLimit now (visionClientId req) (snd st) = (False, rl1)"
  shows "vision_handler sha256hex groq now req st =
           (Response 429 (Error ''Rate limit exceeded - max 10 requests per minute''),
            (m1, rl1), [CallValidateSession, CallCheckRateLimit (visionClientId req)])"
  using assms by (simp add: vision_handler_def Let_def)

lemma vision_not_post:
  assumes "httpMethod req \<noteq> ''POST''"
  shows "snd (vision_handler sha256hex groq now req st) = (st, [])"
  using assms by (simp add: vision_handler_def)

text \<open>
  C7. A request whose session key is missing or whose session is not valid never reaches
  the rate limiter or the model: the handler makes no call to \<open>checkRateLimit\<close> and
  none to Groq, the rate limiter's map is unchanged, and a POST is answered 401. A POST
  with a valid session that the rate limiter rejects is answered 429, and the calls made
  are the validation and the rate check only: the model is not invoked.
\<close>

theorem vision_authorization_order:
  "(fst (validateSessionKey sha256hex now req (fst st)) \<noteq> Valid \<longrightarrow>
      (\<forall>c \<in> set (snd (snd (vision_handler sha256hex groq now req st))).
          \<not> isRateLimitCall c \<and> \<not> isGroqCall c)
      \<and> snd (fst (snd (vision_handler sha256hex groq now req st))) = snd st
      \<and> (httpMethod req = ''POST'' \<longrightarrow>
            status (fst (vision_handler sha256hex groq now req st)) = 401))
   \<and> (httpMethod req = ''POST''
       \<and> fst (validateSessionKey sha256hex now req (fst st)) = Valid
       \<and> \<not> fst (checkRateLimit now (visionClientId req) (snd st)) \<longrightarrow>
      status (fst (vision_handler sha256hex groq now req st)) = 429
      \<and> (\<forall>c \<in> set (snd (snd (vision_handler sha256hex groq now req st))). \<not> isGroqCall c)
      \<and> snd (snd (vision_handler sha256hex groq now req st)) =
            [CallValidateSession, CallCheckRateLimit (visionClientId req)])"
proof (intro conjI impI)
  assume inv: "fst (validateSessionKey sha256hex now req (fst st)) \<noteq> Valid"
  then obtain reason m1 where v: "validateSessionKey sha256hex now req (fst st) = (Invalid reason, m1)"
    by (cases "validateSessionKey sha256hex now req (fst st)"; cases "fst (validateSessionKey sha256hex now req (fst st))") auto
  show "\<forall>c \<in> set (snd (snd (vision_handler sha256hex groq now req st))).
          \<not> isRateLimitCall c \<and> \<not> isGroqCall c"
  proof (cases "httpMethod req = ''POST''")
    case True
    then show ?thesis using vision_unauthorized[OF True v, of groq] by simp
  next
    case False
    then show ?thesis using vision_not_post[OF False, of sha256hex groq now st] by simp
  qed
  show "snd (fst (snd (vision_handler sha256hex groq now req st))) = snd st"
  proof (cases "httpMethod req = ''POST''")
    case True
    then show ?thesis using vision_unauthorized[OF True v, of groq] by simp
  next
    case False
    then show ?thesis using vision_not_post[OF False, of sha256hex groq now st] by simp
  qed
  show "status (fst (vision_handler sha256hex groq now req st)) = 401" if "httpMethod req = ''POST''"
    using vision_unauthorized[OF that v, of groq] by simp
next
  assume a: "httpMethod req = ''POST''
       \<and> fst (validateSessionKey sha256hex now req (fst st)) = Valid
       \<and> \<not> fst (checkRateLimit now (visionClientId req) (snd st))"
  obtain m1 where v: "validateSessionKey sha256hex now req (fst st) = (Valid, m1)"
    using a by (cases "validateSessionKey sha256hex now req (fst st)") auto
  obtain rl1 where r: "checkRateLimit now (visionClientId req) (snd st) = (False, rl1)"
    using a by (cases "checkRateLimit now (visionClientId req) (snd st)") auto
  have post: "httpMethod req = ''POST''" using a by simp
  note res = vision_rate_limited[OF post v r, of groq]
  show "status (fst (vision_handler sha256hex groq now req st)) = 429" using res by simp
  show "\<forall>c \<in> set (snd (snd (vision_handler sha256hex groq now req st))). \<not> isGroqCall c"
    using res by simp
  show "snd (snd (vision_handler sha256hex groq now req st)) =
            [CallValidateSession, CallCheckRateLimit (visionClientId req)]"
    using res by simp
qed

theorem vision_authorization_order_witness:
  "status (fst (vision_handler id (\<lambda>a b c. Completed None a) 500
       (plainRequest ''POST'' ''/api/neuro-os/vision'' ''10.0.0.1'' ''curl'' None)
       ([], Map.empty))) = 401
   \<and> snd (snd (vision_handler id (\<lambda>a b c. Completed None a) 500
       (plainRequest ''POST'' ''/api/neuro-os/vision'' ''10.0.0.1'' ''curl'' None)
       ([], Map.empty))) = [CallValidateSession]
   \<and> status (fst (vision_handler id (\<lambda>a b c. Completed None a) 500
       (plainRequest ''POST'' ''/api/neuro-os/vision'' ''10.0.0.1'' ''curl'' (Some ''k1''))
       ([(''k1'', \<lparr>fingerprint = ''10.0.0.1curl'', createdAt = 0, expiresAt = 1000,
               lastHeartbeat = 0, claimed = True\<rparr>)],
        [''10.0.0.1'' \<mapsto> \<lparr>count = 10, resetAt = 60000\<rparr>]))) = 429
   \<and> snd (snd (vision_handler id (\<lambda>a b c. Completed None a) 500
       (plainRequest ''POST'' ''/api/neuro-os/vision'' ''10.0.0.1'' ''curl'' (Some ''k1''))
       ([(''k1'', \<lparr>fingerprint = ''10.0.0.1curl'', createdAt = 0, expiresAt = 1000,
               lastHeartbeat = 0, claimed = True\<rparr>)],
        [''10.0.0.1'' \<mapsto> \<lparr>count = 10, resetAt = 60000\<rparr>])))
     = [CallValidateSession, CallCheckRateLimit ''10.0.0.1'']"
proof -
  let ?g = "\<lambda>a b c. Completed None a"
  let ?r1 = "plainRequest ''POST'' ''/api/neuro-os/vision'' ''10.0.0.1'' ''curl'' None"
  let ?r2 = "plainRequest ''POST'' ''/api/neuro-os/vision'' ''10.0.0.1'' ''curl'' (Some ''k1'')"
  let ?st = "([(''k1'', \<lparr>fingerprint = ''10.0.0.1curl'', createdAt = 0, expiresAt = 1000,
               lastHeartbeat = 0, claimed = True\<rparr>)],
        [''10.0.0.1'' \<mapsto> \<lparr>count = 10, resetAt = 60000\<rparr>])"
  have one: "status (fst (vision_handler id ?g 500 ?r1 ([], Map.empty))) = 401"
    using vision_authorization_order[of id 500 ?r1 "([], Map.empty)" ?g]
    by (simp add: validateSessionKey_def plainRequest_def)
  have one': "snd (snd (vision_handler id ?g 500 ?r1 ([], Map.empty))) = [CallValidateSession]"
    by (simp add: vision_handler_def validateSessionKey_def plainRequest_def)
  have two: "status (fst (vision_handler id ?g 500 ?r2 ?st)) = 429
      \<and> snd (snd (vision_handler id ?g 500 ?r2 ?st))
          = [CallValidateSession, CallCheckRateLimit ''10.0.0.1'']"
    using vision_authorization_order[of id 500 ?r2 ?st ?g]
    by (simp add: validateSessionKey_def validateSession_def plainRequest_def Map_get_def
          generateFingerprint_def clientIp_def visionClientId_def checkRateLimit_def
          RATE_LIMIT_def Let_def)
  show ?thesis using one one' two by simp
qed

section \<open>The fingerprint\<close>

lemma claim_same_fingerprint:
  "generateFingerprint sha256hex a = generateFingerprint sha256hex b \<Longrightarrow>
   claim sha256hex newKey now a m = claim sha256hex newKey now b m"
  by (simp add: claim_def split: option.splits)

lemma heartbeat_same_fingerprint:
  "generateFingerprint sha256hex a = generateFingerprint sha256hex b \<Longrightarrow>
   xSessionKey a = xSessionKey b \<Longrightarrow>
   heartbeat sha256hex now a m = heartbeat sha256hex now b m"
  by (simp add: heartbeat_def split: option.splits)

lemma release_same_fingerprint:
  "generateFingerprint sha256hex a = generateFingerprint sha256hex b \<Longrightarrow>
   xSessionKey a = xSessionKey b \<Longrightarrow>
   release sha256hex a m = release sha256hex b m"
  by (simp add: release_def split: option.splits)

lemma handler_same_fingerprint:
  assumes "generateFingerprint sha256hex a = generateFingerprint sha256hex b"
    and "httpMethod a = httpMethod b" and "url a = url b" and "xSessionKey a = xSessionKey b"
  shows "handler sha256hex newKey now a m = handler sha256hex newKey now b m"
proof -
  have p: "urlPath a = urlPath b" using assms(3) by (simp add: urlPath_def)
  show ?thesis
    unfolding handler_def Let_def p assms(2)
    using claim_same_fingerprint[OF assms(1)] heartbeat_same_fingerprint[OF assms(1,4)]
      release_same_fingerprint[OF assms(1,4)]
    by simp
qed

lemma validateSession_same_fingerprint:
  "generateFingerprint sha256hex a = generateFingerprint sha256hex b \<Longrightarrow>
   validateSession sha256hex now k a m = validateSession sha256hex now k b m"
  by (simp add: validateSession_def split: option.splits)

lemma fingerprint_same_concatenation:
  "clientIp a @ js_or (userAgent a) [] = clientIp b @ js_or (userAgent b) [] \<Longrightarrow>
   generateFingerprint sha256hex a = generateFingerprint sha256hex b"
  by (simp add: generateFingerprint_def)

text \<open>
  C10. The fingerprint is the digest of \<open>ip + userAgent\<close> with nothing between the two
  parts. Two requests whose concatenations are equal have the same fingerprint, and if
  they also agree on method, URL and session key, the session handler (claim with reuse,
  heartbeat, release) and \<open>validateSession\<close> return the same result for both, whatever
  the store. In particular a request from address \<open>ab\<close> with user agent \<open>c\<close> and one
  from address \<open>a\<close> with user agent \<open>bc\<close> are not told apart.
\<close>

theorem fingerprint_depends_on_concatenation:
  "(clientIp r1 @ js_or (userAgent r1) [] = clientIp r2 @ js_or (userAgent r2) [] \<longrightarrow>
      generateFingerprint sha256hex r1 = generateFingerprint sha256hex r2
      \<and> (httpMethod r1 = httpMethod r2 \<and> url r1 = url r2 \<and> xSessionKey r1 = xSessionKey r2 \<longrightarrow>
           handler sha256hex newKey now r1 m = handler sha256hex newKey now r2 m
           \<and> validateSession sha256hex now k r1 m = validateSession sha256hex now k r2 m))
   \<and> generateFingerprint sha256hex (plainRequest meth u ''ab'' ''c'' key)
       = generateFingerprint sha256hex (plainRequest meth u ''a'' ''bc'' key)
   \<and> handler sha256hex newKey now (plainRequest meth u ''ab'' ''c'' key) m
       = handler sha256hex newKey now (plainRequest meth u ''a'' ''bc'' key) m
   \<and> validateSession sha256hex now k (plainRequest meth u ''ab'' ''c'' key) m
       = validateSession sha256hex now k (plainRequest meth u ''a'' ''bc'' key) m"
proof -
  let ?a = "plainRequest meth u ''ab'' ''c'' key"
  let ?b = "plainRequest meth u ''a'' ''bc'' key"
  have cat: "clientIp ?a @ js_or (userAgent ?a) [] = clientIp ?b @ js_or (userAgent ?b) []"
    by (simp add: clientIp_def plainRequest_def)
  have fp: "generateFingerprint sha256hex ?a = generateFingerprint sha256hex ?b"
    using cat by (rule fingerprint_same_concatenation)
  have same: "httpMethod ?a = httpMethod ?b" "url ?a = url ?b" "xSessionKey ?a = xSessionKey ?b"
    by (simp_all add: plainRequest_def)
  have general: "clientIp r1 @ js_or (userAgent r1) [] = clientIp r2 @ js_or (userAgent r2) [] \<longrightarrow>
      generateFingerprint sha256hex r1 = generateFingerprint sha256hex r2
      \<and> (httpMethod r1 = httpMethod r2 \<and> url r1 = url r2 \<and> xSessionKey r1 = xSessionKey r2 \<longrightarrow>
           handler sha256hex newKey now r1 m = handler sha256hex newKey now r2 m
           \<and> validateSession sha256hex now k r1 m = validateSession sha256hex now k r2 m)"
  proof (intro impI conjI)
    assume c: "clientIp r1 @ js_or (userAgent r1) [] = clientIp r2 @ js_or (userAgent r2) []"
    show g: "generateFingerprint sha256hex r1 = generateFingerprint sha256hex r2"
      using c by (rule fingerprint_same_concatenation)
    assume o: "httpMethod r1 = httpMethod r2 \<and> url r1 = url r2 \<and> xSessionKey r1 = xSessionKey r2"
    show "handler sha256hex newKey now r1 m = handler sha256hex newKey now r2 m"
      using handler_same_fingerprint[OF g] o by blast
    show "validateSession sha256hex now k r1 m = validateSession sha256hex now k r2 m"
      using g by (rule validateSession_same_fingerprint)
  qed
  have h: "handler sha256hex newKey now ?a m = handler sha256hex newKey now ?b m"
    using fp same by (rule handler_same_fingerprint)
  have v: "validateSession sha256hex now k ?a m = validateSession sha256hex now k ?b m"
    using fp by (rule validateSession_same_fingerprint)
  show ?thesis using general fp h v by (intro conjI)
qed

theorem fingerprint_depends_on_concatenation_witness:
  "generateFingerprint id (plainRequest ''GET'' ''/api/session/claim'' ''ab'' ''c'' None) = ''abc''
   \<and> generateFingerprint id (plainRequest ''GET'' ''/api/session/claim'' ''a'' ''bc'' None) = ''abc''
   \<and> handler id ''k2'' 500 (plainRequest ''GET'' ''/api/session/claim'' ''a'' ''bc'' None)
        [(''k1'', \<lparr>fingerprint = ''abc'', createdAt = 0, expiresAt = 1000,
                  lastHeartbeat = 0, claimed = True\<rparr>)]
     = handler id ''k2'' 500 (plainRequest ''GET'' ''/api/session/claim'' ''ab'' ''c'' None)
        [(''k1'', \<lparr>fingerprint = ''abc'', createdAt = 0, expiresAt = 1000,
                  lastHeartbeat = 0, claimed = True\<rparr>)]
   \<and> fst (handler id ''k2'' 500 (plainRequest ''GET'' ''/api/session/claim'' ''a'' ''bc'' None)
        [(''k1'', \<lparr>fingerprint = ''abc'', createdAt = 0, expiresAt = 1000,
                  lastHeartbeat = 0, claimed = True\<rparr>)])
     = Response 200 (SessionReused ''k1'' 1000)"
proof -
  let ?a = "plainRequest ''GET'' ''/api/session/claim'' ''ab'' ''c'' None"
  let ?b = "plainRequest ''GET'' ''/api/session/claim'' ''a'' ''bc'' None"
  let ?m = "[(''k1'', \<lparr>fingerprint = ''abc'', createdAt = 0, expiresAt = 1000,
                  lastHeartbeat = 0, claimed = True\<rparr>)]"
  have cat: "clientIp ?b @ js_or (userAgent ?b) [] = clientIp ?a @ js_or (userAgent ?a) []"
    by (simp add: clientIp_def plainRequest_def)
  have same: "httpMethod ?b = httpMethod ?a \<and> url ?b = url ?a \<and> xSessionKey ?b = xSessionKey ?a"
    by (simp add: plainRequest_def)
  note inst = fingerprint_depends_on_concatenation
                [of ?b ?a id "''k2''" 500 ?m "''k1''" "''GET''" "''/''" None]
  have "generateFingerprint id ?b = generateFingerprint id ?a
      \<and> (httpMethod ?b = httpMethod ?a \<and> url ?b = url ?a \<and> xSessionKey ?b = xSessionKey ?a \<longrightarrow>
           handler id ''k2'' 500 ?b ?m = handler id ''k2'' 500 ?a ?m
           \<and> validateSession id 500 ''k1'' ?b ?m = validateSession id 500 ''k1'' ?a ?m)"
    using conjunct1[OF inst] cat by (rule mp)
  then have "handler id ''k2'' 500 ?b ?m = handler id ''k2'' 500 ?a ?m
           \<and> validateSession id 500 ''k1'' ?b ?m = validateSession id 500 ''k1'' ?a ?m"
    using same by blast
  then have eq: "handler id ''k2'' 500 ?b ?m = handler id ''k2'' 500 ?a ?m"
    by (rule conjunct1)
  have run: "fst (handler id ''k2'' 500 ?b ?m) = Response 200 (SessionReused ''k1'' 1000)"
    by (simp add: handler_def claim_def plainRequest_def urlPath_def endsWith_def Let_def
        cleanupExpiredSessions_def Map_size_def MAX_SESSIONS_def generateFingerprint_def
        clientIp_def)
  have fa: "generateFingerprint id ?a = ''abc''" and fb: "generateFingerprint id ?b = ''abc''"
    by (simp_all add: generateFingerprint_def clientIp_def plainRequest_def)
  show ?thesis using eq run fa fb by (intro conjI)
qed

section \<open>The schedule file\<close>

lemma pickRandomInterval_pos: "0 < pickRandomInterval r"
proof -
  have "r mod 3 < 3" by simp
  then have "r mod 3 = 0 \<or> r mod 3 = 1 \<or> r mod 3 = 2" by arith
  then show ?thesis by (auto simp: pickRandomInterval_def intervals_def)
qed




lemma handler_no_data:
  assumes "ensureDir d = Inr d1" and "loadSchedule (loadDraw rnd) now d1 = (None, d2)"
  shows "schedule_handler rnd now req d = Inr (Response 500 (Error noScheduleHint), d2)"
  using assms by (simp add: schedule_handler_def)


lemma not_due_after_wrap: "\<not> due now (wrap schedule (now + pickRandomInterval r))"
  using pickRandomInterval_pos[of r] by (simp add: wrap_def Map_get_def)

lemma loadSchedule_array:
  assumes "scheduleFile d = Stored (JArr items)" and "writable d" and "dirExists d"
  shows "loadSchedule r now d =
           (Some (wrap (JArr items) (now + pickRandomInterval r)),
            d\<lparr>scheduleFile := Stored (wrap (JArr items) (now + pickRandomInterval r))\<rparr>)"
  using assms by (simp add: loadSchedule_def writeFileSync_def Let_def)

lemma loadSchedule_wrapped:
  assumes "scheduleFile d = Stored (wrap (JArr items) n)" and "n \<noteq> 0"
  shows "loadSchedule r now d = (Some (wrap (JArr items) n), d)"
  using assms by (simp add: loadSchedule_def wrap_def Map_get_def)

lemma loadSchedule_array_unwritable:
  assumes "scheduleFile d = Stored (JArr items)" and "\<not> (writable d \<and> dirExists d)"
  shows "loadSchedule r now d = (None, d)"
  using assms by (auto simp: loadSchedule_def writeFileSync_def Let_def)

text \<open>
  C9, as the code has it. The write-back of the migrated file is inside the \<open>try\<close> of
  \<open>loadSchedule\<close>. When the file holds a bare array and the write succeeds,
  \<open>loadSchedule\<close> returns the object \<open>{schedule, nextRefresh}\<close> whose \<open>schedule\<close> is
  the array as it was, entry for entry, and leaves that object in the file; reading the
  file again returns the same object and writes nothing, and a GET at that moment is
  answered 200 with the object. When the write fails, \<open>loadSchedule\<close> returns nothing,
  the file keeps the bare array, and the request is answered 500.
\<close>

theorem legacy_array_migration:
  assumes "scheduleFile d = Stored (JArr items)" and "0 \<le> now"
  shows "(writable d \<and> dirExists d \<longrightarrow>
           loadSchedule r now d =
             (Some (wrap (JArr items) (now + pickRandomInterval r)),
              d\<lparr>scheduleFile := Stored (wrap (JArr items) (now + pickRandomInterval r))\<rparr>)
         \<and> scheduleOf (wrap (JArr items) (now + pickRandomInterval r)) = items
         \<and> loadSchedule r' now'
              (d\<lparr>scheduleFile := Stored (wrap (JArr items) (now + pickRandomInterval r))\<rparr>) =
             (Some (wrap (JArr items) (now + pickRandomInterval r)),
              d\<lparr>scheduleFile := Stored (wrap (JArr items) (now + pickRandomInterval r))\<rparr>)
         \<and> schedule_handler rnd now \<lparr>reqMethod = ''GET'', reqBody = b\<rparr> d =
             Inr (Response 200
                    (Document (wrap (JArr items) (now + pickRandomInterval (loadDraw rnd)))),
                  d\<lparr>scheduleFile :=
                       Stored (wrap (JArr items) (now + pickRandomInterval (loadDraw rnd)))\<rparr>))
       \<and> (\<not> (writable d \<and> dirExists d) \<longrightarrow> loadSchedule r now d = (None, d))
       \<and> (dirExists d \<and> \<not> writable d \<longrightarrow>
            schedule_handler rnd now req d = Inr (Response 500 (Error noScheduleHint), d))"
proof (intro conjI impI)
  assume w: "writable d \<and> dirExists d"
  show "loadSchedule r now d =
           (Some (wrap (JArr items) (now + pickRandomInterval r)),
            d\<lparr>scheduleFile := Stored (wrap (JArr items) (now + pickRandomInterval r))\<rparr>)"
    using assms(1) w by (simp add: loadSchedule_array)
next
  show "scheduleOf (wrap (JArr items) (now + pickRandomInterval r)) = items"
    by (simp add: wrap_def Map_get_def)
next
  have "now + pickRandomInterval r \<noteq> 0"
    using pickRandomInterval_pos[of r] assms(2) by simp
  then show "loadSchedule r' now'
            (d\<lparr>scheduleFile := Stored (wrap (JArr items) (now + pickRandomInterval r))\<rparr>) =
           (Some (wrap (JArr items) (now + pickRandomInterval r)),
            d\<lparr>scheduleFile := Stored (wrap (JArr items) (now + pickRandomInterval r))\<rparr>)"
    by (simp add: loadSchedule_wrapped)
next
  assume w: "writable d \<and> dirExists d"
  have e: "ensureDir d = Inr d" using w by (simp add: ensureDir_def)
  have l: "loadSchedule (loadDraw rnd) now d =
           (Some (wrap (JArr items) (now + pickRandomInterval (loadDraw rnd))),
            d\<lparr>scheduleFile := Stored (wrap (JArr items) (now + pickRandomInterval (loadDraw rnd)))\<rparr>)"
    using assms(1) w by (simp add: loadSchedule_array)
  show "schedule_handler rnd now \<lparr>reqMethod = ''GET'', reqBody = b\<rparr> d =
           Inr (Response 200 (Document (wrap (JArr items) (now + pickRandomInterval (loadDraw rnd)))),
                d\<lparr>scheduleFile :=
                     Stored (wrap (JArr items) (now + pickRandomInterval (loadDraw rnd)))\<rparr>)"
    using e l not_due_after_wrap[of now "JArr items" "loadDraw rnd"]
    by (simp add: schedule_handler_def rotate_def)
next
  assume "\<not> (writable d \<and> dirExists d)"
  then show "loadSchedule r now d = (None, d)"
    using assms(1) by (simp add: loadSchedule_array_unwritable)
next
  assume u: "dirExists d \<and> \<not> writable d"
  have e: "ensureDir d = Inr d" using u by (simp add: ensureDir_def)
  have "loadSchedule (loadDraw rnd) now d = (None, d)"
    using assms(1) u by (simp add: loadSchedule_array_unwritable)
  then show "schedule_handler rnd now req d = Inr (Response 500 (Error noScheduleHint), d)"
    using e handler_no_data by blast
qed

theorem legacy_array_migration_witness:
  "loadSchedule 0 1000
     \<lparr>dirExists = True,
      scheduleFile = Stored (JArr [JObj [(''videoIndex'', JNum 0), (''delay'', JNum 1000)]]),
      writable = True\<rparr>
   = (Some (JObj [(''schedule'', JArr [JObj [(''videoIndex'', JNum 0), (''delay'', JNum 1000)]]),
                  (''nextRefresh'', JNum 3601000)]),
      \<lparr>dirExists = True,
       scheduleFile = Stored
         (JObj [(''schedule'', JArr [JObj [(''videoIndex'', JNum 0), (''delay'', JNum 1000)]]),
                (''nextRefresh'', JNum 3601000)]),
       writable = True\<rparr>)
   \<and> loadSchedule 0 1000
     \<lparr>dirExists = True,
      scheduleFile = Stored (JArr [JObj [(''videoIndex'', JNum 0), (''delay'', JNum 1000)]]),
      writable = False\<rparr>
   = (None,
      \<lparr>dirExists = True,
       scheduleFile = Stored (JArr [JObj [(''videoIndex'', JNum 0), (''delay'', JNum 1000)]]),
       writable = False\<rparr>)"
proof -
  let ?items = "[JObj [(''videoIndex'', JNum 0), (''delay'', JNum 1000)]]"
  let ?ok = "\<lparr>dirExists = True, scheduleFile = Stored (JArr ?items), writable = True\<rparr>"
  let ?ro = "\<lparr>dirExists = True, scheduleFile = Stored (JArr ?items), writable = False\<rparr>"
  have one: "loadSchedule 0 1000 ?ok =
     (Some (wrap (JArr ?items) (1000 + pickRandomInterval 0)),
      ?ok\<lparr>scheduleFile := Stored (wrap (JArr ?items) (1000 + pickRandomInterval 0))\<rparr>)"
    using legacy_array_migration[of ?ok ?items 1000 0] by simp
  have two: "loadSchedule 0 1000 ?ro = (None, ?ro)"
    using legacy_array_migration[of ?ro ?items 1000 0] by simp
  show ?thesis using one two by (simp add: wrap_def pickRandomInterval_def intervals_def)
qed

text \<open>
  C9 as stated fails: on a disk that refuses the write, a legacy array is neither
  returned in the object shape nor persisted in it, and the GET is answered 500.
\<close>

theorem legacy_array_lost_when_write_fails:
  "loadSchedule 0 1000
     \<lparr>dirExists = True,
      scheduleFile = Stored (JArr [JObj [(''videoIndex'', JNum 0), (''delay'', JNum 1000)]]),
      writable = False\<rparr>
   = (None,
      \<lparr>dirExists = True,
       scheduleFile = Stored (JArr [JObj [(''videoIndex'', JNum 0), (''delay'', JNum 1000)]]),
       writable = False\<rparr>)
   \<and> schedule_handler \<lparr>loadDraw = 0, shuffleDraw = id, rotateDraw = 0, postDraw = 0\<rparr> 1000
       \<lparr>reqMethod = ''GET'', reqBody = None\<rparr>
       \<lparr>dirExists = True,
        scheduleFile = Stored (JArr [JObj [(''videoIndex'', JNum 0), (''delay'', JNum 1000)]]),
        writable = False\<rparr>
     = Inr (Response 500 (Error noScheduleHint),
        \<lparr>dirExists = True,
         scheduleFile = Stored (JArr [JObj [(''videoIndex'', JNum 0), (''delay'', JNum 1000)]]),
         writable = False\<rparr>)"
  by (simp add: schedule_handler_def ensureDir_def loadSchedule_def writeFileSync_def Let_def)




end
